theory Spec2Isabelle
  imports Complex_Main "HOL-Library.Word"
begin

unbundle bit_operations_syntax

section \<open>Data model\<close>

text \<open>
  The repository is a retrieval-augmented generation service: \<^verbatim>\<open>data_loder.py\<close> chunks
  and embeds text, \<^verbatim>\<open>vectore_db.py\<close> wraps a Qdrant collection, and \<^verbatim>\<open>main.py\<close> holds the
  two workflows \<^verbatim>\<open>rag_ingest_pdf\<close> and \<^verbatim>\<open>rag_query_pdf\<close>.

  Python exceptions are values of \<open>error\<close>; a function that may raise returns
  \<open>error + 'a\<close>. \<open>ValueError\<close>, \<open>RuntimeError\<close>, \<open>FileNotFoundError\<close>, \<open>KeyError\<close> and
  \<open>IndexError\<close> are the built-in exceptions the source raises, with their messages. The
  remaining constructors stand for the exceptions of the client libraries: the vector
  engine being unreachable, the engine answering "already exists" or "not found", and a
  failed call to the embedding provider or to the generative model.
\<close>

datatype error =
    ValueError string
  | RuntimeError string
  | FileNotFoundError string
  | KeyError string
  | IndexError
  | EngineUnreachable
  | EngineAlreadyExists string
  | EngineNotFound string
  | ProviderError string
  | ModelError string

type_synonym vector = "real list"

type_synonym payload = "string \<rightharpoonup> string"

record point =
  pvector :: vector
  ppayload :: "payload option"

datatype distance = COSINE | EUCLID | DOT | MANHATTAN

record collection =
  csize :: nat
  cdistance :: distance
  cpoints :: "string \<rightharpoonup> point"

text \<open>
  The calls a run issues to the vector engine, to the embedding provider and to the
  generative model are effects. The \<open>world\<close> holds the engine's state (whether it
  answers, and its collections) and one log per collaborator, so that "no call was
  made" is a statement about a log.
\<close>

datatype engine_call =
    GetCollections
  | CollectionExists string
  | CreateCollection string nat distance
  | UpsertPoints string "(string \<times> point) list"
  | QueryPoints string vector int

record world =
  reachable :: bool
  collections :: "string \<rightharpoonup> collection"
  engine_log :: "engine_call list"
  embed_log :: "string list list"
  llm_log :: "string list"

section \<open>Embedder (data\_loder.py)\<close>

definition EMBED_DIM :: nat where
  "EMBED_DIM = 3072"

text \<open>
  The loop \<^verbatim>\<open>for i in range(0, len(texts), batch_size)\<close> of \<^verbatim>\<open>embed_texts\<close>, for a
  positive step. \<open>create\<close> is the embedding provider (\<^verbatim>\<open>client.embeddings.create\<close>
  followed by reading \<^verbatim>\<open>item.embedding\<close> of every item of \<^verbatim>\<open>response.data\<close>); each call
  is recorded in \<open>embed_log\<close> before its answer is looked at, and an exception of the
  provider leaves the loop.
\<close>

function embed_loop ::
  "(string list \<Rightarrow> error + vector list) \<Rightarrow> string list \<Rightarrow> nat \<Rightarrow> nat \<Rightarrow> vector list \<Rightarrow>
   world \<Rightarrow> (error + vector list) \<times> world" where
  "embed_loop create texts batch_size i all_embeddings w =
     (if batch_size = 0 \<or> length texts \<le> i then (Inr all_embeddings, w)
      else
        let batch = take batch_size (drop i texts);
            w' = w\<lparr>embed_log := embed_log w @ [batch]\<rparr>
        in case create batch of
             Inl e \<Rightarrow> (Inl e, w')
           | Inr data \<Rightarrow>
               embed_loop create texts batch_size (i + batch_size) (all_embeddings @ data) w')"
  by pat_completeness auto
termination
  by (relation "measure (\<lambda>(create, texts, batch_size, i, acc, w). length texts - i)") auto

text \<open>
  \<^verbatim>\<open>embed_texts(texts, batch_size=100)\<close>. Python's \<^verbatim>\<open>range\<close> raises \<^verbatim>\<open>ValueError\<close> for a
  step of zero and is empty for a negative step. The dimension check reads
  \<^verbatim>\<open>all_embeddings[0]\<close>, which exists there: the count check has passed and \<open>texts\<close> is
  not empty.
\<close>

definition embed_texts ::
  "(string list \<Rightarrow> error + vector list) \<Rightarrow> string list \<Rightarrow> int \<Rightarrow> world \<Rightarrow>
   (error + vector list) \<times> world" where
  "embed_texts create texts batch_size w =
     (if texts = [] then (Inl (ValueError ''embed_texts received empty input''), w)
      else if batch_size = 0 then (Inl (ValueError ''range() arg 3 must not be zero''), w)
      else
        case (if batch_size < 0 then (Inr [], w)
              else embed_loop create texts (nat batch_size) 0 [] w) of
          (Inl e, w') \<Rightarrow> (Inl e, w')
        | (Inr all_embeddings, w') \<Rightarrow>
            if length all_embeddings \<noteq> length texts
              then (Inl (RuntimeError ''Embedding count mismatch''), w')
            else if length (hd all_embeddings) \<noteq> EMBED_DIM
              then (Inl (RuntimeError ''Embedding dimension mismatch''), w')
            else (Inr all_embeddings, w'))"

text \<open>
  The partition the spec describes for \<^verbatim>\<open>embed\<close>, in its words: consecutive batches of at
  most \<open>n\<close> texts. It is what the loop of the source is compared with.
\<close>

function batches :: "nat \<Rightarrow> 'a list \<Rightarrow> 'a list list" where
  "batches n xs = (if n = 0 \<or> xs = [] then [] else take n xs # batches n (drop n xs))"
  by pat_completeness auto
termination
  by (relation "measure (\<lambda>(n, xs). length xs)") auto

section \<open>Vector engine\<close>

text \<open>
  Modelled from the spec: the vector database engine (Qdrant behind \<^verbatim>\<open>qdrant_client\<close>) is
  not code of the repository. Section 6 of the spec gives its interface: a collection
  existence check and creation, point upsert by id, vector and payload, and a
  nearest-neighbour query by vector that returns payloads. Every call is logged; a call
  to an engine that does not answer fails with \<open>EngineUnreachable\<close>. Creating a collection
  that exists is answered "already exists"; an upsert writes or overwrites each point by
  its id, in the order given; a query returns at most \<open>limit\<close> points, the first ones of
  the ranking \<open>nearest\<close> of the collection's points for the query vector (the engine's
  similarity search, in descending relevance).
\<close>

definition engine_call :: "engine_call \<Rightarrow> world \<Rightarrow> world" where
  "engine_call c w = w\<lparr>engine_log := engine_log w @ [c]\<rparr>"

definition engine_get_collections :: "world \<Rightarrow> (error + unit) \<times> world" where
  "engine_get_collections w =
     (let w' = engine_call GetCollections w
      in if reachable w then (Inr (), w') else (Inl EngineUnreachable, w'))"

definition engine_collection_exists :: "string \<Rightarrow> world \<Rightarrow> (error + bool) \<times> world" where
  "engine_collection_exists name w =
     (let w' = engine_call (CollectionExists name) w
      in if reachable w then (Inr (collections w name \<noteq> None), w')
         else (Inl EngineUnreachable, w'))"

definition engine_create_collection ::
  "string \<Rightarrow> nat \<Rightarrow> distance \<Rightarrow> world \<Rightarrow> (error + unit) \<times> world" where
  "engine_create_collection name dim' metric w =
     (let w' = engine_call (CreateCollection name dim' metric) w
      in if \<not> reachable w then (Inl EngineUnreachable, w')
         else if collections w name \<noteq> None then (Inl (EngineAlreadyExists name), w')
         else (Inr (), w'\<lparr>collections := (collections w)(name \<mapsto>
                 \<lparr>csize = dim', cdistance = metric, cpoints = Map.empty\<rparr>)\<rparr>))"

fun write_points :: "(string \<times> point) list \<Rightarrow> (string \<rightharpoonup> point) \<Rightarrow> (string \<rightharpoonup> point)" where
  "write_points [] m = m"
| "write_points ((pid, p) # ps) m = write_points ps (m(pid \<mapsto> p))"

definition engine_upsert ::
  "string \<Rightarrow> (string \<times> point) list \<Rightarrow> world \<Rightarrow> (error + unit) \<times> world" where
  "engine_upsert name ps w =
     (let w' = engine_call (UpsertPoints name ps) w
      in if \<not> reachable w then (Inl EngineUnreachable, w')
         else case collections w name of
                None \<Rightarrow> (Inl (EngineNotFound name), w')
              | Some c \<Rightarrow>
                  (Inr (), w'\<lparr>collections := (collections w)(name \<mapsto>
                     c\<lparr>cpoints := write_points ps (cpoints c)\<rparr>)\<rparr>))"

definition engine_query_points ::
  "(collection \<Rightarrow> vector \<Rightarrow> point list) \<Rightarrow> string \<Rightarrow> vector \<Rightarrow> int \<Rightarrow> world \<Rightarrow>
   (error + point list) \<times> world" where
  "engine_query_points nearest name query limit w =
     (let w' = engine_call (QueryPoints name query limit) w
      in if \<not> reachable w then (Inl EngineUnreachable, w')
         else case collections w name of
                None \<Rightarrow> (Inl (EngineNotFound name), w')
              | Some c \<Rightarrow> (Inr (take (nat limit) (nearest c query)), w'))"

section \<open>Vector store wrapper (vectore\_db.py)\<close>

record qdrant_storage =
  qs_url :: string
  qs_collection :: string

text \<open>
  \<^verbatim>\<open>QdrantStorage.__init__(url, collection, dim)\<close>: \<^verbatim>\<open>get_collections\<close> first ("fail fast
  if qdrant is unreachable"), then \<^verbatim>\<open>collection_exists\<close>, then \<^verbatim>\<open>create_collection\<close>
  when the answer was no. No call is wrapped in \<^verbatim>\<open>try\<close>: an exception of any of the
  three leaves the constructor. The check and the creation are two calls, and the engine
  is shared: \<open>others\<close> is what other clients of the engine do between the two.
\<close>

definition QdrantStorage_init_among ::
  "(world \<Rightarrow> world) \<Rightarrow> string \<Rightarrow> string \<Rightarrow> nat \<Rightarrow> world \<Rightarrow> (error + qdrant_storage) \<times> world" where
  "QdrantStorage_init_among others url collection dim' w =
     (let self = \<lparr>qs_url = url, qs_collection = collection\<rparr>
      in case engine_get_collections w of
           (Inl e, w1) \<Rightarrow> (Inl e, w1)
         | (Inr _, w1) \<Rightarrow>
             (case engine_collection_exists collection w1 of
                (Inl e, w2) \<Rightarrow> (Inl e, w2)
              | (Inr found, w2) \<Rightarrow>
                  if \<not> found then
                    (case engine_create_collection collection dim' COSINE (others w2) of
                       (Inl e, w3) \<Rightarrow> (Inl e, w3)
                     | (Inr _, w3) \<Rightarrow> (Inr self, w3))
                  else (Inr self, others w2)))"

text \<open>The constructor when no other client acts in between.\<close>

definition QdrantStorage_init ::
  "string \<Rightarrow> string \<Rightarrow> nat \<Rightarrow> world \<Rightarrow> (error + qdrant_storage) \<times> world" where
  "QdrantStorage_init = QdrantStorage_init_among (\<lambda>w. w)"

text \<open>\<^verbatim>\<open>QdrantStorage()\<close>, with the default arguments of the constructor.\<close>

definition QdrantStorage_default :: "world \<Rightarrow> (error + qdrant_storage) \<times> world" where
  "QdrantStorage_default = QdrantStorage_init ''http://localhost:6333'' ''docs'' 3072"

text \<open>Python's \<^verbatim>\<open>xs[i]\<close> for an index that is not negative.\<close>

definition py_index :: "'a list \<Rightarrow> nat \<Rightarrow> error + 'a" where
  "py_index xs i = (if i < length xs then Inr (xs ! i) else Inl IndexError)"

text \<open>
  The list comprehension of \<^verbatim>\<open>upsert\<close>, over the indices \<^verbatim>\<open>range(len(ids))\<close>: each
  element reads \<^verbatim>\<open>ids[i]\<close>, \<^verbatim>\<open>vectors[i]\<close> and \<^verbatim>\<open>payloads[i]\<close>.
\<close>

fun build_points ::
  "string list \<Rightarrow> vector list \<Rightarrow> payload list \<Rightarrow> nat list \<Rightarrow> error + (string \<times> point) list" where
  "build_points ids vectors payloads [] = Inr []"
| "build_points ids vectors payloads (i # rest) =
     (case py_index ids i of
        Inl e \<Rightarrow> Inl e
      | Inr pid \<Rightarrow>
          (case py_index vectors i of
             Inl e \<Rightarrow> Inl e
           | Inr v \<Rightarrow>
               (case py_index payloads i of
                  Inl e \<Rightarrow> Inl e
                | Inr pl \<Rightarrow>
                    (case build_points ids vectors payloads rest of
                       Inl e \<Rightarrow> Inl e
                     | Inr ps \<Rightarrow> Inr ((pid, \<lparr>pvector = v, ppayload = Some pl\<rparr>) # ps)))))"

definition upsert ::
  "qdrant_storage \<Rightarrow> string list \<Rightarrow> vector list \<Rightarrow> payload list \<Rightarrow> world \<Rightarrow>
   (error + unit) \<times> world" where
  "upsert self ids vectors payloads w =
     (case build_points ids vectors payloads [0..<length ids] of
        Inl e \<Rightarrow> (Inl e, w)
      | Inr points \<Rightarrow> engine_upsert (qs_collection self) points w)"

text \<open>
  \<^verbatim>\<open>search\<close>. \<^verbatim>\<open>point.payload or {}\<close> reads a missing payload as the empty dictionary, and
  \<^verbatim>\<open>if payload.get(k)\<close> holds when the key is present with a value that is not empty.
  \<open>sources\<close> is a Python set: it is held as the list of its elements, each once, in the
  order they were first added. \<^verbatim>\<open>list(sources)\<close> enumerates it in the set's iteration
  order, which the language leaves open: \<open>set_order\<close> is the key the iteration follows.
\<close>

record search_result =
  sr_contexts :: "string list"
  sr_sources :: "string list"

definition payload_or_empty :: "point \<Rightarrow> payload" where
  "payload_or_empty p = (case ppayload p of None \<Rightarrow> Map.empty | Some m \<Rightarrow> m)"

definition truthy_get :: "payload \<Rightarrow> string \<Rightarrow> bool" where
  "truthy_get m k = (case m k of None \<Rightarrow> False | Some v \<Rightarrow> v \<noteq> [])"

definition set_add :: "'a \<Rightarrow> 'a list \<Rightarrow> 'a list" where
  "set_add x xs = (if x \<in> set xs then xs else xs @ [x])"

definition list_of_set :: "(string \<Rightarrow> nat) \<Rightarrow> string list \<Rightarrow> string list" where
  "list_of_set set_order xs = sort_key set_order xs"

fun search_loop :: "point list \<Rightarrow> string list \<Rightarrow> string list \<Rightarrow> string list \<times> string list" where
  "search_loop [] ctxs srcs = (ctxs, srcs)"
| "search_loop (p # ps) ctxs srcs =
     (let pl = payload_or_empty p;
          ctxs' = (if truthy_get pl ''text'' then ctxs @ [the (pl ''text'')] else ctxs);
          srcs' = (if truthy_get pl ''source'' then set_add (the (pl ''source'')) srcs else srcs)
      in search_loop ps ctxs' srcs')"

definition search ::
  "(collection \<Rightarrow> vector \<Rightarrow> point list) \<Rightarrow> (string \<Rightarrow> nat) \<Rightarrow> qdrant_storage \<Rightarrow> vector \<Rightarrow> int \<Rightarrow>
   world \<Rightarrow> (error + search_result) \<times> world" where
  "search nearest set_order self query_vector top_k w =
     (case engine_query_points nearest (qs_collection self) query_vector top_k w of
        (Inl e, w') \<Rightarrow> (Inl e, w')
      | (Inr response, w') \<Rightarrow>
          (case search_loop response [] [] of
             (ctxs, srcs) \<Rightarrow>
               (Inr \<lparr>sr_contexts = ctxs, sr_sources = list_of_set set_order srcs\<rparr>, w')))"

section \<open>Identity scheme (main.py, upsert\_step)\<close>

text \<open>
  \<^verbatim>\<open>str(uuid.uuid5(uuid.NAMESPACE_URL, f"{source_id}:{i}"))\<close>. The name is the source id,
  a colon and the offset in decimal. \<^verbatim>\<open>uuid5\<close> under the fixed namespace is the standard
  library's name-based hash (SHA-1 of namespace and name, cut to a 128-bit UUID): it is a
  parameter \<open>h\<close> of the model, a function of the name alone. \<^verbatim>\<open>str\<close> of a UUID is its 32
  hexadecimal digits, most significant first, in groups of 8, 4, 4, 4 and 12.
\<close>

type_synonym uuid = "128 word"

definition digit_char :: "nat \<Rightarrow> char" where
  "digit_char d = char_of (48 + d)"

function str_nat :: "nat \<Rightarrow> string" where
  "str_nat n = (if n < 10 then [digit_char n] else str_nat (n div 10) @ [digit_char (n mod 10)])"
  by pat_completeness auto
termination
  by (relation "measure (\<lambda>n. n)") auto

definition chunk_name :: "string \<Rightarrow> nat \<Rightarrow> string" where
  "chunk_name source_id i = source_id @ '':'' @ str_nat i"

definition hex_digit :: "nat \<Rightarrow> char" where
  "hex_digit d = ''0123456789abcdef'' ! d"

definition nibble :: "uuid \<Rightarrow> nat \<Rightarrow> nat" where
  "nibble u i = unat (drop_bit (4 * (31 - i)) u AND 15)"

definition hex32 :: "uuid \<Rightarrow> string" where
  "hex32 u = map (\<lambda>i. hex_digit (nibble u i)) [0..<32]"

definition str_uuid :: "uuid \<Rightarrow> string" where
  "str_uuid u =
     (let h = hex32 u
      in take 8 h @ ''-'' @ take 4 (drop 8 h) @ ''-'' @ take 4 (drop 12 h) @ ''-'' @
         take 4 (drop 16 h) @ ''-'' @ drop 20 h)"

definition derive_id :: "(string \<Rightarrow> uuid) \<Rightarrow> string \<Rightarrow> nat \<Rightarrow> string" where
  "derive_id h source_id i = str_uuid (h (chunk_name source_id i))"

section \<open>Chunk source (data\_loder.py)\<close>

text \<open>
  \<^verbatim>\<open>load_and_chunk_pdf\<close> reads the file system and calls the PDF reader and the sentence
  splitter of a library; \<open>pdf_env\<close> holds what they answer: the resolved path, whether it
  exists, its suffix, the texts of the documents the reader returns, and the splitter.
  \<open>strip\<close> and \<open>lower\<close> are Python's \<^verbatim>\<open>str.strip\<close> and \<^verbatim>\<open>str.lower\<close> on ASCII text.
\<close>

record pdf_env =
  path_resolve :: "string \<Rightarrow> string"
  path_exists :: "string \<Rightarrow> bool"
  path_suffix :: "string \<Rightarrow> string"
  load_data :: "string \<Rightarrow> error + string list"
  split_text :: "string \<Rightarrow> string list"

definition is_space :: "char \<Rightarrow> bool" where
  "is_space c = (let n = (of_char c :: nat) in (9 \<le> n \<and> n \<le> 13) \<or> (28 \<le> n \<and> n \<le> 32))"

definition strip :: "string \<Rightarrow> string" where
  "strip s = rev (dropWhile is_space (rev (dropWhile is_space s)))"

definition lower :: "string \<Rightarrow> string" where
  "lower s = map (\<lambda>c. let n = (of_char c :: nat) in if 65 \<le> n \<and> n \<le> 90 then char_of (n + 32) else c) s"

definition load_and_chunk_pdf :: "pdf_env \<Rightarrow> string \<Rightarrow> error + string list" where
  "load_and_chunk_pdf env path =
     (let pdf_path = path_resolve env path
      in if \<not> path_exists env pdf_path
           then Inl (FileNotFoundError (''PDF not found: '' @ pdf_path))
         else if lower (path_suffix env pdf_path) \<noteq> ''.pdf''
           then Inl (ValueError (''Not a PDF file: '' @ pdf_path))
         else
           case load_data env pdf_path of
             Inl e \<Rightarrow> Inl e
           | Inr docs \<Rightarrow>
               let texts = map strip (filter (\<lambda>d. d \<noteq> [] \<and> strip d \<noteq> []) docs)
               in if texts = [] then Inl (ValueError ''No extractable text found in PDF'')
                  else
                    let chunks = concat (map (split_text env) texts)
                    in if chunks = [] then Inl (ValueError ''Chunking produced no text'')
                       else Inr chunks)"

section \<open>Workflows (main.py)\<close>

text \<open>
  The collaborators of a run that are not code of the repository: the embedding
  provider, the generative model (model name, input and output budget to output text),
  \<^verbatim>\<open>uuid5\<close> under \<^verbatim>\<open>NAMESPACE_URL\<close>, the engine's similarity ranking and the iteration order
  of a Python set. \<^verbatim>\<open>step.run(name, f)\<close> of the workflow engine is one attempt of \<open>f\<close>.
\<close>

record ext =
  ext_embeddings :: "string list \<Rightarrow> error + vector list"
  ext_generate :: "string \<Rightarrow> string \<Rightarrow> nat \<Rightarrow> error + string"
  ext_uuid5 :: "string \<Rightarrow> uuid"
  ext_nearest :: "collection \<Rightarrow> vector \<Rightarrow> point list"
  ext_set_order :: "string \<Rightarrow> nat"

record ingest_event =
  ev_pdf_path :: "string option"
  ev_source_id :: "string option"

record chunk_result =
  cr_source_id :: string
  cr_chunks :: "string list"

definition load_step :: "pdf_env \<Rightarrow> ingest_event \<Rightarrow> error + chunk_result" where
  "load_step env ev =
     (case ev_pdf_path ev of
        None \<Rightarrow> Inl (KeyError ''pdf_path'')
      | Some pdf_path \<Rightarrow>
          (let source_id = (case ev_source_id ev of None \<Rightarrow> pdf_path | Some s \<Rightarrow> s)
           in (case load_and_chunk_pdf env pdf_path of
                 Inl e \<Rightarrow> Inl e
               | Inr chunks \<Rightarrow> Inr \<lparr>cr_source_id = source_id, cr_chunks = chunks\<rparr>)))"

definition upsert_step :: "ext \<Rightarrow> chunk_result \<Rightarrow> world \<Rightarrow> (error + nat) \<times> world" where
  "upsert_step x data w =
     (let chunks = cr_chunks data;
          source_id = cr_source_id data
      in (case embed_texts (ext_embeddings x) chunks 100 w of
            (Inl e, w1) \<Rightarrow> (Inl e, w1)
          | (Inr vectors, w1) \<Rightarrow>
              (let ids = map (\<lambda>i. derive_id (ext_uuid5 x) source_id i) [0..<length chunks];
                   payloads = map (\<lambda>i. [''text'' \<mapsto> chunks ! i, ''source'' \<mapsto> source_id])
                                [0..<length chunks]
               in (case QdrantStorage_default w1 of
                     (Inl e, w2) \<Rightarrow> (Inl e, w2)
                   | (Inr store, w2) \<Rightarrow>
                       (case upsert store ids vectors payloads w2 of
                          (Inl e, w3) \<Rightarrow> (Inl e, w3)
                        | (Inr _, w3) \<Rightarrow> (Inr (length chunks), w3))))))"

definition rag_ingest_pdf ::
  "ext \<Rightarrow> pdf_env \<Rightarrow> ingest_event \<Rightarrow> world \<Rightarrow> (error + nat) \<times> world" where
  "rag_ingest_pdf x env ev w =
     (case load_step env ev of
        Inl e \<Rightarrow> (Inl e, w)
      | Inr chunk_result \<Rightarrow> upsert_step x chunk_result w)"

record query_event =
  ev_question :: "string option"
  ev_top_k :: "int option"

record query_answer =
  qa_answer :: string
  qa_sources :: "string list"
  qa_num_contexts :: nat

definition nl :: string where
  "nl = [CHR 0x0A]"

fun join :: "string \<Rightarrow> string list \<Rightarrow> string" where
  "join sep [] = []"
| "join sep [x] = x"
| "join sep (x # y # ys) = x @ sep @ join sep (y # ys)"

text \<open>
  The answer of the empty-context branch, as the bytes of the source file's literal
  (between \<^verbatim>\<open>don\<close> and \<^verbatim>\<open>t\<close> stand the UTF-8 bytes of three characters that are not ASCII).
\<close>

definition FALLBACK_ANSWER :: string where
  "FALLBACK_ANSWER =
     ''I don'' @ [CHR 0xC3, CHR 0xA2, CHR 0xE2, CHR 0x82, CHR 0xAC, CHR 0xE2, CHR 0x84, CHR 0xA2] @
     ''t know based on the provided context.''"

definition search_step :: "ext \<Rightarrow> string \<Rightarrow> int \<Rightarrow> world \<Rightarrow> (error + search_result) \<times> world" where
  "search_step x question top_k w =
     (case embed_texts (ext_embeddings x) [question] 100 w of
        (Inl e, w1) \<Rightarrow> (Inl e, w1)
      | (Inr vectors, w1) \<Rightarrow>
          (let vector = hd vectors
           in (case QdrantStorage_default w1 of
                 (Inl e, w2) \<Rightarrow> (Inl e, w2)
               | (Inr store, w2) \<Rightarrow>
                   search (ext_nearest x) (ext_set_order x) store vector top_k w2)))"

definition build_input :: "string \<Rightarrow> string list \<Rightarrow> string" where
  "build_input question ctxs =
     (let context_block = join (nl @ nl) ctxs;
          prompt = ''Answer ONLY using the context below.'' @ nl @ nl @
                   ''Context:'' @ nl @ context_block @ nl @ nl @
                   ''Question: '' @ question
      in ''SYSTEM:'' @ nl @
         ''Use ONLY the provided context. '' @
         ''If the answer is not present, say you don'' @ [CHR 0x27] @ ''t know.'' @ nl @ nl @
         ''USER:'' @ nl @ prompt)"

definition rag_query_pdf :: "ext \<Rightarrow> query_event \<Rightarrow> world \<Rightarrow> (error + query_answer) \<times> world" where
  "rag_query_pdf x ev w =
     (case ev_question ev of
        None \<Rightarrow> (Inl (ValueError ''Missing question''), w)
      | Some question \<Rightarrow>
          if question = [] then (Inl (ValueError ''Missing question''), w)
          else
            (let top_k = (case ev_top_k ev of None \<Rightarrow> 5 | Some k \<Rightarrow> k)
             in (case search_step x question top_k w of
                   (Inl e, w1) \<Rightarrow> (Inl e, w1)
                 | (Inr search_result, w1) \<Rightarrow>
                     if sr_contexts search_result = [] then
                       (Inr \<lparr>qa_answer = FALLBACK_ANSWER, qa_sources = [], qa_num_contexts = 0\<rparr>, w1)
                     else
                       (let input = build_input question (sr_contexts search_result);
                            w2 = w1\<lparr>llm_log := llm_log w1 @ [input]\<rparr>
                        in (case ext_generate x ''gpt-4o-mini'' input 512 of
                              Inl e \<Rightarrow> (Inl e, w2)
                            | Inr output_text \<Rightarrow>
                                (Inr \<lparr>qa_answer = strip output_text,
                                      qa_sources = sr_sources search_result,
                                      qa_num_contexts = length (sr_contexts search_result)\<rparr>, w2))))))"

section \<open>Stored points\<close>

text \<open>
  The ids of the points stored in the collection \<open>docs\<close>, the collection both workflows
  use, and the two effects a run has on the engine's collections: \<open>docs\<close> is there
  afterwards, and points are written into it.
\<close>

definition stored_ids :: "world \<Rightarrow> string set" where
  "stored_ids w = (case collections w ''docs'' of None \<Rightarrow> {} | Some c \<Rightarrow> dom (cpoints c))"


definition ensure_docs :: "(string \<rightharpoonup> collection) \<Rightarrow> (string \<rightharpoonup> collection)" where
  "ensure_docs cs =
     (case cs ''docs'' of
        None \<Rightarrow> cs(''docs'' \<mapsto> \<lparr>csize = 3072, cdistance = COSINE, cpoints = Map.empty\<rparr>)
      | Some c \<Rightarrow> cs)"

definition write_docs ::
  "(string \<times> point) list \<Rightarrow> (string \<rightharpoonup> collection) \<Rightarrow> (string \<rightharpoonup> collection)" where
  "write_docs ps cs =
     (case cs ''docs'' of
        None \<Rightarrow> cs
      | Some c \<Rightarrow> cs(''docs'' \<mapsto> c\<lparr>cpoints := write_points ps (cpoints c)\<rparr>))"

text \<open>
  The second half of \<^verbatim>\<open>upsert_step\<close>, after the embedding: the constructor of the store
  and the upsert.
\<close>

definition store_points ::
  "string list \<Rightarrow> vector list \<Rightarrow> payload list \<Rightarrow> nat \<Rightarrow> world \<Rightarrow> (error + nat) \<times> world" where
  "store_points ids vectors payloads n w =
     (case QdrantStorage_default w of
        (Inl e, w2) \<Rightarrow> (Inl e, w2)
      | (Inr store, w2) \<Rightarrow>
          (case upsert store ids vectors payloads w2 of
             (Inl e, w3) \<Rightarrow> (Inl e, w3)
           | (Inr _, w3) \<Rightarrow> (Inr n, w3)))"

section \<open>Concrete collaborators\<close>

text \<open>
  A world whose engine answers and holds no collection, a vector of the configured
  dimension, and a provider that returns that vector for every text of a batch.
\<close>

definition world0 :: world where
  "world0 = \<lparr>reachable = True, collections = Map.empty, engine_log = [], embed_log = [],
     llm_log = []\<rparr>"

definition zero_vector :: vector where
  "zero_vector = replicate 3072 0"

definition zero_provider :: "string list \<Rightarrow> error + vector list" where
  "zero_provider batch = Inr (map (\<lambda>t. zero_vector) batch)"

text \<open>
  A provider whose first vector has the configured dimension and whose other vectors
  have one component.
\<close>

definition mixed_provider :: "string list \<Rightarrow> error + vector list" where
  "mixed_provider batch = Inr (zero_vector # map (\<lambda>t. [1]) (tl batch))"

definition ext0 :: ext where
  "ext0 = \<lparr>ext_embeddings = zero_provider,
     ext_generate = (\<lambda>model input budget. Inr ''ok''),
     ext_uuid5 = (\<lambda>name. 0),
     ext_nearest = (\<lambda>c query. []),
     ext_set_order = (\<lambda>s. length s)\<rparr>"

text \<open>
  The world after one run of the embed-and-search step for the question \<open>q\<close> from \<open>world0\<close>:
  one provider call, the collection created, one query.
\<close>

definition world1 :: world where
  "world1 = \<lparr>reachable = True,
     collections = [''docs'' \<mapsto> \<lparr>csize = 3072, cdistance = COSINE, cpoints = Map.empty\<rparr>],
     engine_log = [GetCollections, CollectionExists ''docs'', CreateCollection ''docs'' 3072 COSINE,
       QueryPoints ''docs'' zero_vector 5],
     embed_log = [[''q'']], llm_log = []\<rparr>"

text \<open>
  Three matched points: one with text and source, one with a source only, one without a
  payload.
\<close>

definition sample_points :: "point list" where
  "sample_points =
     [\<lparr>pvector = zero_vector, ppayload = Some [''text'' \<mapsto> ''alpha info'', ''source'' \<mapsto> ''doc1'']\<rparr>,
      \<lparr>pvector = zero_vector, ppayload = Some [''source'' \<mapsto> ''doc1'']\<rparr>,
      \<lparr>pvector = zero_vector, ppayload = None\<rparr>]"

text \<open>
  A document of two chunks, ingested under the source id \<open>doc1\<close>, and a hash that tells
  names ending in different characters apart.
\<close>

definition env0 :: pdf_env where
  "env0 = \<lparr>path_resolve = (\<lambda>p. p), path_exists = (\<lambda>p. True), path_suffix = (\<lambda>p. ''.pdf''),
     load_data = (\<lambda>p. Inr [''alpha info'', ''beta info'']), split_text = (\<lambda>t. [t])\<rparr>"

definition ev0 :: ingest_event where
  "ev0 = \<lparr>ev_pdf_path = Some ''a.pdf'', ev_source_id = Some ''doc1''\<rparr>"

definition last_char_hash :: "string \<Rightarrow> uuid" where
  "last_char_hash name = of_nat (of_char (last name))"


definition ext1 :: ext where
  "ext1 = ext0\<lparr>ext_uuid5 := last_char_hash\<rparr>"

section \<open>The embedder: batching\<close>

declare embed_loop.simps [simp del]
declare batches.simps [simp del]

lemma batches_concat: "0 < n \<Longrightarrow> concat (batches n xs) = xs"
proof (induction n xs rule: batches.induct)
  case (1 n xs)
  then show ?case by (subst batches.simps) auto
qed

lemma batches_bound: "b \<in> set (batches n xs) \<Longrightarrow> b \<noteq> [] \<and> length b \<le> n"
proof (induction n xs rule: batches.induct)
  case (1 n xs)
  show ?case
  proof (cases "n = 0 \<or> xs = []")
    case True
    with "1.prems" show ?thesis by (subst (asm) batches.simps) simp
  next
    case False
    with "1.prems" have "b = take n xs \<or> b \<in> set (batches n (drop n xs))"
      by (subst (asm) batches.simps) simp
    then show ?thesis
    proof
      assume "b = take n xs"
      with False show ?thesis by simp
    next
      assume "b \<in> set (batches n (drop n xs))"
      with "1.IH" False show ?thesis by simp
    qed
  qed
qed

lemma ceil_step: "0 < n \<Longrightarrow> xs \<noteq> [] \<Longrightarrow> Suc ((length (drop n xs) + n - 1) div n) = (length xs + n - 1) div n"
proof (cases "n \<le> length xs")
  case True
  assume n: "0 < n"
  have "length (drop n xs) + n - 1 = length xs - 1" using True n by simp
  moreover have "length xs + n - 1 = (length xs - 1) + n" using True n by simp
  moreover have "((length xs - 1) + n) div n = Suc ((length xs - 1) div n)"
    using n by simp
  ultimately show ?thesis by simp
next
  case False
  assume n: "0 < n" and ne: "xs \<noteq> []"
  have l: "0 < length xs" using ne by simp
  have "length (drop n xs) + n - 1 = n - 1" using False by simp
  then have a: "(length (drop n xs) + n - 1) div n = 0" using n by simp
  have "n * 1 \<le> length xs + n - 1" using l by linarith
  moreover have "length xs + n - 1 < n * Suc 1" using False n by simp
  ultimately have "(length xs + n - 1) div n = 1" by (rule div_nat_eqI)
  with a show ?thesis by simp
qed

lemma batches_length: "0 < n \<Longrightarrow> length (batches n xs) = (length xs + n - 1) div n"
proof (induction n xs rule: batches.induct)
  case (1 n xs)
  show ?case
  proof (cases "xs = []")
    case True
    with "1.prems" show ?thesis by (subst batches.simps) simp
  next
    case False
    have "length (batches n xs) = Suc (length (batches n (drop n xs)))"
      using False "1.prems" by (subst batches.simps) simp
    also have "\<dots> = Suc ((length (drop n xs) + n - 1) div n)"
      using "1.IH" False "1.prems" by simp
    also have "\<dots> = (length xs + n - 1) div n"
      using ceil_step[OF "1.prems" False] .
    finally show ?thesis .
  qed
qed

lemma embed_loop_ok:
  assumes "0 < bs" "\<forall>b \<in> set (batches bs (drop i texts)). \<exists>vs. create b = Inr vs"
  shows "embed_loop create texts bs i acc w =
     (Inr (acc @ concat (map (\<lambda>b. projr (create b)) (batches bs (drop i texts)))),
      w\<lparr>embed_log := embed_log w @ batches bs (drop i texts)\<rparr>)"
  using assms
proof (induction create texts bs i acc w rule: embed_loop.induct)
  case (1 create texts bs i acc w)
  show ?case
  proof (cases "length texts \<le> i")
    case True
    then show ?thesis
      by (subst embed_loop.simps, subst batches.simps, subst batches.simps) simp
  next
    case False
    define batch where "batch = take bs (drop i texts)"
    have bt: "batches bs (drop i texts) = batch # batches bs (drop (i + bs) texts)"
      using False "1.prems"(1) by (subst batches.simps) (simp add: batch_def add.commute)
    then obtain vs where vs: "create batch = Inr vs" using "1.prems"(2) by auto
    have rest: "\<forall>b\<in>set (batches bs (drop (i + bs) texts)). \<exists>vs. create b = Inr vs"
      using "1.prems"(2) bt by simp
    have "embed_loop create texts bs i acc w =
        embed_loop create texts bs (i + bs) (acc @ vs) (w\<lparr>embed_log := embed_log w @ [batch]\<rparr>)"
      using False "1.prems"(1) vs by (subst embed_loop.simps) (simp add: batch_def Let_def)
    also have "\<dots> = (Inr ((acc @ vs) @ concat (map (\<lambda>b. projr (create b)) (batches bs (drop (i + bs) texts)))),
        (w\<lparr>embed_log := embed_log w @ [batch]\<rparr>)\<lparr>embed_log := embed_log (w\<lparr>embed_log := embed_log w @ [batch]\<rparr>) @ batches bs (drop (i + bs) texts)\<rparr>)"
      using "1.IH"[OF _ _ _ vs[unfolded batch_def] "1.prems"(1) rest] False "1.prems"(1)
      by (simp add: batch_def)
    finally show ?thesis using bt vs by simp
  qed
qed

lemma embed_texts_ok:
  assumes "texts \<noteq> []" "0 < bs" "\<forall>b \<in> set (batches (nat bs) texts). \<exists>vs. create b = Inr vs"
  shows "embed_texts create texts bs w =
     (let vs = concat (map (\<lambda>b. projr (create b)) (batches (nat bs) texts));
          w' = w\<lparr>embed_log := embed_log w @ batches (nat bs) texts\<rparr>
      in if length vs \<noteq> length texts then (Inl (RuntimeError ''Embedding count mismatch''), w')
         else if length (hd vs) \<noteq> EMBED_DIM
           then (Inl (RuntimeError ''Embedding dimension mismatch''), w')
         else (Inr vs, w'))"
proof -
  have "embed_loop create texts (nat bs) 0 [] w =
     (Inr ([] @ concat (map (\<lambda>b. projr (create b)) (batches (nat bs) (drop 0 texts)))),
      w\<lparr>embed_log := embed_log w @ batches (nat bs) (drop 0 texts)\<rparr>)"
    using assms by (intro embed_loop_ok) simp_all
  then show ?thesis using assms(1,2) by (simp add: embed_texts_def Let_def)
qed

lemma embed_texts_length:
  "fst (embed_texts create texts bs w) = Inr vs \<Longrightarrow> length vs = length texts"
  by (auto simp: embed_texts_def split: if_splits prod.splits sum.splits)

lemma concat_map_batches:
  "0 < n \<Longrightarrow> concat (map (map e) (batches n xs)) = map e xs"
  by (metis batches_concat map_concat)

lemma batches_250:
  assumes "length xs = 250"
  shows "map length (batches 100 xs) = [100, 100, 50]"
proof -
  have ne: "xs \<noteq> []" "drop 100 xs \<noteq> []" "drop 200 xs \<noteq> []" using assms by auto
  have e: "drop 300 xs = []" using assms by simp
  have "batches 100 xs = take 100 xs # batches 100 (drop 100 xs)"
    using ne by (subst batches.simps) simp
  also have "batches 100 (drop 100 xs) = take 100 (drop 100 xs) # batches 100 (drop 200 xs)"
    using ne by (subst batches.simps) simp
  also have "batches 100 (drop 200 xs) = take 100 (drop 200 xs) # batches 100 (drop 300 xs)"
    using ne by (subst batches.simps) simp
  also have "batches 100 (drop 300 xs) = []"
    using e by (subst batches.simps) simp
  finally show ?thesis using assms by simp
qed

lemma batches_single: "0 < n \<Longrightarrow> xs \<noteq> [] \<Longrightarrow> length xs \<le> n \<Longrightarrow> batches n xs = [xs]"
  by (subst batches.simps, subst batches.simps) simp

text \<open>
  C4. For texts that are not empty, a positive batch size and a provider that answers
  every batch: the calls \<^verbatim>\<open>embed_texts\<close> issues are exactly the batches of the partition of
  \<open>texts\<close> into consecutive batches, in order, one call per batch; the batches concatenate
  to \<open>texts\<close>, none is empty or longer than the batch size, and their number is
  \<open>len(texts)\<close> divided by the batch size, rounded up. A returned result is the
  concatenation of the provider's answers in batch order, so for a provider that embeds
  each text on its own (by \<open>e\<close>) it is \<open>e\<close> of each text in the input order. 250 texts in
  batches of 100 give batches of 100, 100 and 50 texts.
\<close>

theorem embed_batching:
  assumes "texts \<noteq> []" and "0 < bs"
    and "\<forall>b \<in> set (batches (nat bs) texts). \<exists>vs. create b = Inr vs"
  shows "embed_log (snd (embed_texts create texts bs w)) = embed_log w @ batches (nat bs) texts \<and>
    concat (batches (nat bs) texts) = texts \<and>
    (\<forall>b \<in> set (batches (nat bs) texts). b \<noteq> [] \<and> int (length b) \<le> bs) \<and>
    int (length (batches (nat bs) texts)) = (int (length texts) + bs - 1) div bs \<and>
    (\<forall>vs. fst (embed_texts create texts bs w) = Inr vs \<longrightarrow>
       vs = concat (map (\<lambda>b. projr (create b)) (batches (nat bs) texts))) \<and>
    ((\<forall>b. create b = Inr (map e b)) \<and> length (e (hd texts)) = EMBED_DIM \<longrightarrow>
       fst (embed_texts create texts bs w) = Inr (map e texts)) \<and>
    (length texts = 250 \<and> bs = 100 \<longrightarrow> map length (batches (nat bs) texts) = [100, 100, 50])"
proof -
  note ok = embed_texts_ok [OF assms, of w]
  have pos: "0 < nat bs" using assms(2) by simp
  have log: "embed_log (snd (embed_texts create texts bs w)) = embed_log w @ batches (nat bs) texts"
    unfolding ok by (simp add: Let_def)
  have part: "concat (batches (nat bs) texts) = texts"
    using pos by (rule batches_concat)
  have bound: "\<forall>b \<in> set (batches (nat bs) texts). b \<noteq> [] \<and> int (length b) \<le> bs"
    using batches_bound [of _ "nat bs" texts] assms(2) by fastforce
  have "int (length (batches (nat bs) texts)) = int ((length texts + nat bs - 1) div nat bs)"
    using batches_length [OF pos, of texts] by simp
  also have "\<dots> = (int (length texts + nat bs - 1)) div int (nat bs)"
    by (simp add: zdiv_int)
  also have "\<dots> = (int (length texts) + bs - 1) div bs"
    using assms(2) by (simp add: of_nat_diff)
  finally have count: "int (length (batches (nat bs) texts)) = (int (length texts) + bs - 1) div bs" .
  have res: "\<forall>vs. fst (embed_texts create texts bs w) = Inr vs \<longrightarrow>
       vs = concat (map (\<lambda>b. projr (create b)) (batches (nat bs) texts))"
    unfolding ok by (simp add: Let_def)
  have order: "(\<forall>b. create b = Inr (map e b)) \<and> length (e (hd texts)) = EMBED_DIM \<longrightarrow>
       fst (embed_texts create texts bs w) = Inr (map e texts)"
  proof
    assume a: "(\<forall>b. create b = Inr (map e b)) \<and> length (e (hd texts)) = EMBED_DIM"
    then have "(\<lambda>b. projr (create b)) = map e" by auto
    then have "concat (map (\<lambda>b. projr (create b)) (batches (nat bs) texts)) = map e texts"
      using concat_map_batches [OF pos, of e texts] by simp
    then show "fst (embed_texts create texts bs w) = Inr (map e texts)"
      unfolding ok using a assms(1) by (simp add: Let_def hd_map)
  qed
  have ex: "length texts = 250 \<and> bs = 100 \<longrightarrow> map length (batches (nat bs) texts) = [100, 100, 50]"
    using batches_250 [of texts] by auto
  from log part bound count res order ex show ?thesis by blast
qed


theorem embed_batching_witness:
  "embed_log (snd (embed_texts zero_provider (replicate 250 ''t'') 100 world0)) =
     embed_log world0 @ batches 100 (replicate 250 ''t'') \<and>
   concat (batches 100 (replicate 250 ''t'')) = replicate 250 ''t'' \<and>
   int (length (batches 100 (replicate 250 ''t''))) = 3 \<and>
   map length (batches 100 (replicate 250 ''t'')) = [100, 100, 50] \<and>
   fst (embed_texts zero_provider (replicate 250 ''t'') 100 world0) =
     Inr (map (\<lambda>t. zero_vector) (replicate 250 ''t''))"
proof -
  have h1: "replicate 250 ''t'' \<noteq> []" by simp
  have h2: "(0::int) < 100" by simp
  have h3: "\<forall>b \<in> set (batches (nat 100) (replicate 250 ''t'')). \<exists>vs. zero_provider b = Inr vs"
    by (simp add: zero_provider_def)
  have h4: "\<forall>b. zero_provider b = Inr (map (\<lambda>t. zero_vector) b)"
    by (simp add: zero_provider_def)
  have h5: "length zero_vector = EMBED_DIM" by (simp add: zero_vector_def EMBED_DIM_def)
  note t = embed_batching [OF h1 h2 h3, of world0 "\<lambda>t. zero_vector"]
  from t h4 h5 have "fst (embed_texts zero_provider (replicate 250 ''t'') 100 world0) =
     Inr (map (\<lambda>t. zero_vector) (replicate 250 ''t''))"
    by blast
  moreover from t have "map length (batches (nat 100) (replicate 250 ''t'')) = [100, 100, 50]"
    by simp
  moreover from t have "embed_log (snd (embed_texts zero_provider (replicate 250 ''t'') 100 world0)) =
     embed_log world0 @ batches (nat 100) (replicate 250 ''t'')"
    by blast
  moreover from t have "concat (batches (nat 100) (replicate 250 ''t'')) = replicate 250 ''t''"
    by blast
  moreover from t have "int (length (batches (nat 100) (replicate 250 ''t''))) = 3"
    by simp
  ultimately show ?thesis by simp
qed

text \<open>
  C7. \<^verbatim>\<open>embed_texts\<close> on the empty list fails with \<^verbatim>\<open>ValueError\<close> (the spec's InvalidInput)
  and calls nothing. Whenever it returns, it returns as many vectors as there are texts.
  For texts that are not empty, a positive batch size and a provider that answers every
  batch, it fails with \<^verbatim>\<open>RuntimeError("Embedding count mismatch")\<close> (the spec's
  CountMismatch) when the provider's answers hold another number of vectors than there
  are texts.
\<close>

theorem embed_count_guarantee:
  "embed_texts create [] bs w = (Inl (ValueError ''embed_texts received empty input''), w) \<and>
   (fst (embed_texts create texts bs w) = Inr vs \<longrightarrow> length vs = length texts) \<and>
   (texts \<noteq> [] \<and> 0 < bs \<and> (\<forall>b \<in> set (batches (nat bs) texts). \<exists>vs. create b = Inr vs) \<and>
    length (concat (map (\<lambda>b. projr (create b)) (batches (nat bs) texts))) \<noteq> length texts \<longrightarrow>
      fst (embed_texts create texts bs w) = Inl (RuntimeError ''Embedding count mismatch''))"
proof (intro conjI impI)
  show "embed_texts create [] bs w = (Inl (ValueError ''embed_texts received empty input''), w)"
    by (simp add: embed_texts_def)
next
  assume "fst (embed_texts create texts bs w) = Inr vs"
  then show "length vs = length texts" by (rule embed_texts_length)
next
  assume a: "texts \<noteq> [] \<and> 0 < bs \<and> (\<forall>b \<in> set (batches (nat bs) texts). \<exists>vs. create b = Inr vs) \<and>
    length (concat (map (\<lambda>b. projr (create b)) (batches (nat bs) texts))) \<noteq> length texts"
  then have "texts \<noteq> []" "0 < bs" "\<forall>b \<in> set (batches (nat bs) texts). \<exists>vs. create b = Inr vs"
    by simp_all
  from embed_texts_ok [OF this, of w] a
  show "fst (embed_texts create texts bs w) = Inl (RuntimeError ''Embedding count mismatch'')"
    by (simp add: Let_def)
qed

theorem embed_count_guarantee_witness:
  "embed_texts zero_provider [] 100 world0 =
     (Inl (ValueError ''embed_texts received empty input''), world0) \<and>
   fst (embed_texts zero_provider [''a'', ''b''] 100 world0) = Inr [zero_vector, zero_vector] \<and>
   length [zero_vector, zero_vector] = length [''a'', ''b''] \<and>
   fst (embed_texts (\<lambda>b. Inr [zero_vector]) [''a'', ''b''] 100 world0) =
     Inl (RuntimeError ''Embedding count mismatch'')"
proof -
  have b: "batches (nat 100) [''a'', ''b''] = [[''a'', ''b'']]"
    by (rule batches_single) simp_all
  have ok: "fst (embed_texts zero_provider [''a'', ''b''] 100 world0) = Inr [zero_vector, zero_vector]"
    using embed_texts_ok [of "[''a'', ''b'']" 100 zero_provider world0] b
    by (simp add: zero_provider_def Let_def zero_vector_def EMBED_DIM_def)
  show ?thesis
    using embed_count_guarantee [of zero_provider 100 world0 "[''a'', ''b'']" "[zero_vector, zero_vector]"]
      embed_count_guarantee [of "\<lambda>b. Inr [zero_vector]" 100 world0 "[''a'', ''b'']" "[]"]
      ok b
    by simp
qed

section \<open>The embedder: frame and dimension check\<close>

text \<open>
  What \<^verbatim>\<open>embed_texts\<close> returns does not depend on the world, and all it changes of the
  world is the log of provider calls.
\<close>

lemma embed_loop_shape:
  "\<exists>R L. \<forall>w. embed_loop create texts bs i acc w = (R, w\<lparr>embed_log := embed_log w @ L\<rparr>)"
proof (induction "length texts - i" arbitrary: i acc rule: less_induct)
  case less
  show ?case
  proof (cases "bs = 0 \<or> length texts \<le> i")
    case True
    then have "\<forall>w. embed_loop create texts bs i acc w = (Inr acc, w\<lparr>embed_log := embed_log w @ []\<rparr>)"
      by (subst embed_loop.simps) simp
    then show ?thesis by blast
  next
    case False
    define batch where "batch = take bs (drop i texts)"
    show ?thesis
    proof (cases "create batch")
      case (Inl e)
      with False have "\<forall>w. embed_loop create texts bs i acc w =
          (Inl e, w\<lparr>embed_log := embed_log w @ [batch]\<rparr>)"
        by (subst embed_loop.simps) (simp add: batch_def Let_def)
      then show ?thesis by blast
    next
      case (Inr data)
      from False have "length texts - (i + bs) < length texts - i" by linarith
      from less [OF this, of "acc @ data"] obtain R L where
        rl: "\<forall>w. embed_loop create texts bs (i + bs) (acc @ data) w =
           (R, w\<lparr>embed_log := embed_log w @ L\<rparr>)" by blast
      have "\<forall>w. embed_loop create texts bs i acc w = (R, w\<lparr>embed_log := embed_log w @ (batch # L)\<rparr>)"
      proof
        fix w
        have "embed_loop create texts bs i acc w =
           embed_loop create texts bs (i + bs) (acc @ data) (w\<lparr>embed_log := embed_log w @ [batch]\<rparr>)"
          using False Inr by (subst embed_loop.simps) (simp add: batch_def Let_def)
        with rl show "embed_loop create texts bs i acc w = (R, w\<lparr>embed_log := embed_log w @ (batch # L)\<rparr>)"
          by simp
      qed
      then show ?thesis by blast
    qed
  qed
qed

lemma embed_texts_shape:
  "\<exists>R L. \<forall>w. embed_texts create texts bs w = (R, w\<lparr>embed_log := embed_log w @ L\<rparr>)"
proof -
  obtain R L where rl: "\<forall>w. embed_loop create texts (nat bs) 0 [] w = (R, w\<lparr>embed_log := embed_log w @ L\<rparr>)"
    using embed_loop_shape by blast
  show ?thesis
  proof (cases "texts = [] \<or> bs = 0")
    case True
    then have "\<forall>w. embed_texts create texts bs w = (fst (embed_texts create texts bs world0), w\<lparr>embed_log := embed_log w @ []\<rparr>)"
      by (auto simp: embed_texts_def)
    then show ?thesis by blast
  next
    case False
    show ?thesis
    proof (cases "bs < 0")
      case True
      with False have "\<forall>w. embed_texts create texts bs w =
        (Inl (RuntimeError ''Embedding count mismatch''), w\<lparr>embed_log := embed_log w @ []\<rparr>)"
        by (simp add: embed_texts_def)
      then show ?thesis by blast
    next
      case nonneg: False
      show ?thesis
      proof (cases R)
        case (Inl e)
        with False nonneg rl have "\<forall>w. embed_texts create texts bs w = (Inl e, w\<lparr>embed_log := embed_log w @ L\<rparr>)"
          by (simp add: embed_texts_def)
        then show ?thesis by blast
      next
        case (Inr vs)
        with False nonneg rl have "\<forall>w. embed_texts create texts bs w =
          ((if length vs \<noteq> length texts then Inl (RuntimeError ''Embedding count mismatch'')
            else if length (hd vs) \<noteq> EMBED_DIM then Inl (RuntimeError ''Embedding dimension mismatch'')
            else Inr vs), w\<lparr>embed_log := embed_log w @ L\<rparr>)"
          by (simp add: embed_texts_def)
        then show ?thesis by blast
      qed
    qed
  qed
qed

text \<open>
  C2. The dimension check of \<^verbatim>\<open>embed_texts\<close> reads \<^verbatim>\<open>all_embeddings[0]\<close> only. For the two
  texts \<open>a\<close> and \<open>b\<close> and a provider that answers a vector of 3072 components followed by a
  vector of one component, \<^verbatim>\<open>embed_texts\<close> returns both vectors instead of raising
  \<^verbatim>\<open>RuntimeError("Embedding dimension mismatch")\<close>, and \<^verbatim>\<open>upsert_step\<close> goes on to the
  engine's upsert with the vector of one component among the points and reports two
  chunks ingested.
\<close>

theorem dimension_guard_first_only:
  "fst (embed_texts mixed_provider [''a'', ''b''] 100 world0) = Inr [zero_vector, [1]] \<and>
   length ([1] :: vector) \<noteq> EMBED_DIM \<and>
   fst (upsert_step (ext0\<lparr>ext_embeddings := mixed_provider\<rparr>)
          \<lparr>cr_source_id = ''s'', cr_chunks = [''a'', ''b'']\<rparr> world0) = Inr 2 \<and>
   (\<exists>ps. last (engine_log (snd (upsert_step (ext0\<lparr>ext_embeddings := mixed_provider\<rparr>)
          \<lparr>cr_source_id = ''s'', cr_chunks = [''a'', ''b'']\<rparr> world0))) = UpsertPoints ''docs'' ps \<and>
      map (\<lambda>p. pvector (snd p)) ps = [zero_vector, [1]])"
proof -
  have b: "batches (nat 100) [''a'', ''b''] = [[''a'', ''b'']]"
    by (rule batches_single) simp_all
  have e: "embed_texts mixed_provider [''a'', ''b''] 100 world0 =
     (Inr [zero_vector, [1]], world0\<lparr>embed_log := [[''a'', ''b'']]\<rparr>)"
    using embed_texts_ok [of "[''a'', ''b'']" 100 mixed_provider world0] b
    by (simp add: mixed_provider_def Let_def zero_vector_def EMBED_DIM_def world0_def)
  have u: "[0..<length [''a'', ''b'']] = [0, 1]" by (simp add: upt_rec)
  show ?thesis
    using e u
    by (simp add: EMBED_DIM_def upsert_step_def ext0_def QdrantStorage_default_def
        QdrantStorage_init_def QdrantStorage_init_among_def engine_get_collections_def
        engine_collection_exists_def engine_create_collection_def engine_call_def
        upsert_def engine_upsert_def py_index_def world0_def Let_def)
qed

section \<open>The store wrapper: construction\<close>

lemmas engine_defs =
  engine_get_collections_def engine_collection_exists_def engine_create_collection_def
  engine_call_def

text \<open>
  C8, as the spec states it, asks that an attempt whose creation call is answered
  "already exists" counts as a success. The constructor catches nothing: from a world
  without the collection, when another client creates \<open>docs\<close> between this client's
  existence check and its creation call, the constructor fails with the engine's
  "already exists".
\<close>

theorem store_open_race_counterexample:
  "fst (QdrantStorage_init_among (\<lambda>w. snd (engine_create_collection ''docs'' 3072 COSINE w))
          ''http://localhost:6333'' ''docs'' 3072 world0) = Inl (EngineAlreadyExists ''docs'')"
  by (simp add: QdrantStorage_init_among_def engine_defs world0_def Let_def)

text \<open>
  C8, amended. The constructor calls \<^verbatim>\<open>get_collections\<close> first, and on an engine that does
  not answer it fails there, having issued no other call. On an engine that answers, run
  with no other client in between: when the existence check finds the collection absent
  it is created empty with the given dimension and the cosine distance; when the check
  finds it, nothing is created or changed (the configuration of the existing collection
  is not read). When another client has created the collection between the check and the
  creation call, the constructor fails with the engine's "already exists".
\<close>

theorem store_open:
  "(\<not> reachable w \<longrightarrow>
      QdrantStorage_init_among others url c d w =
        (Inl EngineUnreachable, engine_call GetCollections w)) \<and>
   (reachable w \<and> collections w c = None \<longrightarrow>
      QdrantStorage_init url c d w =
        (Inr \<lparr>qs_url = url, qs_collection = c\<rparr>,
         (engine_call (CreateCollection c d COSINE)
            (engine_call (CollectionExists c) (engine_call GetCollections w)))
          \<lparr>collections := (collections w)(c \<mapsto>
             \<lparr>csize = d, cdistance = COSINE, cpoints = Map.empty\<rparr>)\<rparr>)) \<and>
   (reachable w \<and> collections w c \<noteq> None \<longrightarrow>
      QdrantStorage_init url c d w =
        (Inr \<lparr>qs_url = url, qs_collection = c\<rparr>,
         engine_call (CollectionExists c) (engine_call GetCollections w))) \<and>
   (reachable w \<and> collections w c = None \<and>
    reachable (others (engine_call (CollectionExists c) (engine_call GetCollections w))) \<and>
    collections (others (engine_call (CollectionExists c) (engine_call GetCollections w))) c \<noteq> None \<longrightarrow>
      fst (QdrantStorage_init_among others url c d w) = Inl (EngineAlreadyExists c))"
  by (auto simp: QdrantStorage_init_def QdrantStorage_init_among_def engine_defs Let_def)

theorem store_open_witness:
  "QdrantStorage_init_among (\<lambda>w. w) ''u'' ''docs'' 3072 (world0\<lparr>reachable := False\<rparr>) =
        (Inl EngineUnreachable, engine_call GetCollections (world0\<lparr>reachable := False\<rparr>)) \<and>
   QdrantStorage_init ''u'' ''docs'' 3072 world0 =
        (Inr \<lparr>qs_url = ''u'', qs_collection = ''docs''\<rparr>,
         (engine_call (CreateCollection ''docs'' 3072 COSINE)
            (engine_call (CollectionExists ''docs'') (engine_call GetCollections world0)))
          \<lparr>collections := (collections world0)(''docs'' \<mapsto>
             \<lparr>csize = 3072, cdistance = COSINE, cpoints = Map.empty\<rparr>)\<rparr>) \<and>
   QdrantStorage_init ''u'' ''docs'' 3072 world1 =
        (Inr \<lparr>qs_url = ''u'', qs_collection = ''docs''\<rparr>,
         engine_call (CollectionExists ''docs'') (engine_call GetCollections world1)) \<and>
   fst (QdrantStorage_init_among (\<lambda>w. snd (engine_create_collection ''docs'' 3072 COSINE w))
          ''u'' ''docs'' 3072 world0) = Inl (EngineAlreadyExists ''docs'')"
proof -
  have a: "\<not> reachable (world0\<lparr>reachable := False\<rparr>)" by simp
  have b: "reachable world0 \<and> collections world0 ''docs'' = None" by (simp add: world0_def)
  have c: "reachable world1 \<and> collections world1 ''docs'' \<noteq> None" by (simp add: world1_def)
  have d: "reachable world0 \<and> collections world0 ''docs'' = None \<and>
    reachable (snd (engine_create_collection ''docs'' 3072 COSINE
       (engine_call (CollectionExists ''docs'') (engine_call GetCollections world0)))) \<and>
    collections (snd (engine_create_collection ''docs'' 3072 COSINE
       (engine_call (CollectionExists ''docs'') (engine_call GetCollections world0)))) ''docs'' \<noteq> None"
    by (simp add: world0_def engine_defs Let_def)
  from a store_open [of "world0\<lparr>reachable := False\<rparr>" "\<lambda>w. w" "''u''" "''docs''" 3072]
  have 1: "QdrantStorage_init_among (\<lambda>w. w) ''u'' ''docs'' 3072 (world0\<lparr>reachable := False\<rparr>) =
        (Inl EngineUnreachable, engine_call GetCollections (world0\<lparr>reachable := False\<rparr>))"
    by blast
  from b store_open [of world0 "\<lambda>w. w" "''u''" "''docs''" 3072]
  have 2: "QdrantStorage_init ''u'' ''docs'' 3072 world0 =
        (Inr \<lparr>qs_url = ''u'', qs_collection = ''docs''\<rparr>,
         (engine_call (CreateCollection ''docs'' 3072 COSINE)
            (engine_call (CollectionExists ''docs'') (engine_call GetCollections world0)))
          \<lparr>collections := (collections world0)(''docs'' \<mapsto>
             \<lparr>csize = 3072, cdistance = COSINE, cpoints = Map.empty\<rparr>)\<rparr>)"
    by blast
  from c store_open [of world1 "\<lambda>w. w" "''u''" "''docs''" 3072]
  have 3: "QdrantStorage_init ''u'' ''docs'' 3072 world1 =
        (Inr \<lparr>qs_url = ''u'', qs_collection = ''docs''\<rparr>,
         engine_call (CollectionExists ''docs'') (engine_call GetCollections world1))"
    by blast
  from d store_open [of world0 "\<lambda>w. snd (engine_create_collection ''docs'' 3072 COSINE w)" "''u''" "''docs''" 3072]
  have 4: "fst (QdrantStorage_init_among (\<lambda>w. snd (engine_create_collection ''docs'' 3072 COSINE w))
          ''u'' ''docs'' 3072 world0) = Inl (EngineAlreadyExists ''docs'')"
    by blast
  from 1 2 3 4 show ?thesis by blast
qed

section \<open>The store wrapper: upsert\<close>

lemma build_points_short:
  "\<exists>i \<in> set idx. length vectors \<le> i \<or> length payloads \<le> i \<Longrightarrow>
   \<forall>i \<in> set idx. i < length ids \<Longrightarrow>
   build_points ids vectors payloads idx = Inl IndexError"
proof (induction idx)
  case Nil
  then show ?case by simp
next
  case (Cons i idx)
  show ?case
  proof (cases "length vectors \<le> i \<or> length payloads \<le> i")
    case True
    then show ?thesis using Cons.prems(2) by (auto simp: py_index_def)
  next
    case False
    with Cons.prems have "\<exists>i \<in> set idx. length vectors \<le> i \<or> length payloads \<le> i" by auto
    with Cons.IH Cons.prems(2) have "build_points ids vectors payloads idx = Inl IndexError"
      by simp
    then show ?thesis using False Cons.prems(2) by (simp add: py_index_def)
  qed
qed

lemma build_points_long:
  "\<forall>i \<in> set idx. i < length ids \<and> i < length vectors \<and> i < length payloads \<Longrightarrow>
   build_points ids vectors payloads idx =
     Inr (map (\<lambda>i. (ids ! i, \<lparr>pvector = vectors ! i, ppayload = Some (payloads ! i)\<rparr>)) idx)"
  by (induction idx) (simp_all add: py_index_def)

text \<open>
  C9. \<^verbatim>\<open>QdrantStorage.upsert\<close> indexes \<open>vectors\<close> and \<open>payloads\<close> at every index of \<open>ids\<close>.
  When \<open>vectors\<close> or \<open>payloads\<close> is shorter than \<open>ids\<close>, the call fails with \<open>IndexError\<close>
  and the world is as before: no call has reached the engine. When both are at least as
  long as \<open>ids\<close>, the point list is built (id, vector and payload of each index of
  \<open>ids\<close>) and handed to the engine's upsert.
\<close>

theorem upsert_precondition:
  "(length vectors < length ids \<or> length payloads < length ids \<longrightarrow>
      upsert self ids vectors payloads w = (Inl IndexError, w)) \<and>
   (length ids \<le> length vectors \<and> length ids \<le> length payloads \<longrightarrow>
      upsert self ids vectors payloads w =
        engine_upsert (qs_collection self)
          (map (\<lambda>i. (ids ! i, \<lparr>pvector = vectors ! i, ppayload = Some (payloads ! i)\<rparr>))
             [0..<length ids]) w)"
proof (intro conjI impI)
  assume short: "length vectors < length ids \<or> length payloads < length ids"
  have "\<exists>i \<in> set [0..<length ids]. length vectors \<le> i \<or> length payloads \<le> i"
  proof -
    from short show ?thesis
    proof
      assume "length vectors < length ids"
      then have "length vectors \<in> set [0..<length ids]" by simp
      then show ?thesis by blast
    next
      assume "length payloads < length ids"
      then have "length payloads \<in> set [0..<length ids]" by simp
      then show ?thesis by blast
    qed
  qed
  then have "build_points ids vectors payloads [0..<length ids] = Inl IndexError"
    by (rule build_points_short) simp
  then show "upsert self ids vectors payloads w = (Inl IndexError, w)"
    by (simp add: upsert_def)
next
  assume "length ids \<le> length vectors \<and> length ids \<le> length payloads"
  then have "build_points ids vectors payloads [0..<length ids] =
     Inr (map (\<lambda>i. (ids ! i, \<lparr>pvector = vectors ! i, ppayload = Some (payloads ! i)\<rparr>)) [0..<length ids])"
    by (intro build_points_long) auto
  then show "upsert self ids vectors payloads w =
        engine_upsert (qs_collection self)
          (map (\<lambda>i. (ids ! i, \<lparr>pvector = vectors ! i, ppayload = Some (payloads ! i)\<rparr>))
             [0..<length ids]) w"
    by (simp add: upsert_def)
qed

theorem upsert_precondition_witness:
  "upsert \<lparr>qs_url = ''u'', qs_collection = ''docs''\<rparr> [''a'', ''b''] [zero_vector]
     [Map.empty, Map.empty] world0 = (Inl IndexError, world0) \<and>
   upsert \<lparr>qs_url = ''u'', qs_collection = ''docs''\<rparr> [''a''] [zero_vector, zero_vector]
     [Map.empty] world0 =
     engine_upsert ''docs'' [(''a'', \<lparr>pvector = zero_vector, ppayload = Some Map.empty\<rparr>)] world0"
  using upsert_precondition [of "[zero_vector]" "[''a'', ''b'']" "[Map.empty, Map.empty]"
      "\<lparr>qs_url = ''u'', qs_collection = ''docs''\<rparr>" world0]
    upsert_precondition [of "[zero_vector, zero_vector]" "[''a'']" "[Map.empty]"
      "\<lparr>qs_url = ''u'', qs_collection = ''docs''\<rparr>" world0]
  by simp

section \<open>The store wrapper: search\<close>

lemma search_loop_contexts:
  "fst (search_loop ps ctxs srcs) =
     ctxs @ map (\<lambda>p. the (payload_or_empty p ''text''))
              (filter (\<lambda>p. truthy_get (payload_or_empty p) ''text'') ps)"
  by (induction ps arbitrary: ctxs srcs) (simp_all add: Let_def)

lemma search_loop_sources:
  "set (snd (search_loop ps ctxs srcs)) =
     set srcs \<union> (\<lambda>p. the (payload_or_empty p ''source'')) `
       {p \<in> set ps. truthy_get (payload_or_empty p) ''source''}"
  by (induction ps arbitrary: ctxs srcs) (auto simp: Let_def set_add_def)

lemma search_loop_distinct:
  "distinct srcs \<Longrightarrow> distinct (snd (search_loop ps ctxs srcs))"
  by (induction ps arbitrary: ctxs srcs) (auto simp: Let_def set_add_def)

lemma truthy_get_present:
  "truthy_get (payload_or_empty p) k \<Longrightarrow>
   \<exists>m. ppayload p = Some m \<and> m k = Some (the (payload_or_empty p k))"
  by (auto simp: truthy_get_def payload_or_empty_def split: option.splits)

lemma search_sample:
  "search (\<lambda>c query. sample_points) length \<lparr>qs_url = ''u'', qs_collection = ''docs''\<rparr>
      zero_vector 2 world1 =
   (Inr \<lparr>sr_contexts = [''alpha info''], sr_sources = [''doc1'']\<rparr>,
    engine_call (QueryPoints ''docs'' zero_vector 2) world1)"
  by (simp add: search_def engine_query_points_def engine_call_def world1_def sample_points_def
      payload_or_empty_def truthy_get_def set_add_def list_of_set_def Let_def)

text \<open>
  C6. A \<^verbatim>\<open>search\<close> that returns has queried an existing collection; with \<open>matched\<close> the
  points the engine returned (the first \<open>top_k\<close> of its ranking, most relevant first):
  \<open>contexts\<close> is the text of every matched point that has one, in the order of the
  matched points, so it has at most \<open>top_k\<close> elements; \<open>sources\<close> holds exactly the sources
  of the matched points that have one, each once. Each context is the \<open>text\<close> field of a
  matched point's payload and each source the \<open>source\<close> field of one; a point lacking one
  field is left out for that field only, since the two selections are independent.
\<close>

theorem search_result_shape:
  assumes "search nearest ord self q k w = (Inr r, w')"
  shows "\<exists>c. collections w (qs_collection self) = Some c \<and>
    (let matched = take (nat k) (nearest c q) in
       sr_contexts r = map (\<lambda>p. the (payload_or_empty p ''text''))
         (filter (\<lambda>p. truthy_get (payload_or_empty p) ''text'') matched) \<and>
       set (sr_sources r) = (\<lambda>p. the (payload_or_empty p ''source'')) `
         {p \<in> set matched. truthy_get (payload_or_empty p) ''source''} \<and>
       distinct (sr_sources r) \<and>
       length (sr_contexts r) \<le> nat k \<and>
       (\<forall>t \<in> set (sr_contexts r). \<exists>p \<in> set matched. \<exists>m. ppayload p = Some m \<and> m ''text'' = Some t) \<and>
       (\<forall>s \<in> set (sr_sources r). \<exists>p \<in> set matched. \<exists>m. ppayload p = Some m \<and> m ''source'' = Some s))"
proof -
  from assms obtain c where c: "collections w (qs_collection self) = Some c" and "reachable w"
    by (auto simp: search_def engine_query_points_def Let_def split: if_splits option.splits)
  define matched where "matched = take (nat k) (nearest c q)"
  from assms c \<open>reachable w\<close>
  have r: "r = \<lparr>sr_contexts = fst (search_loop matched [] []),
                sr_sources = list_of_set ord (snd (search_loop matched [] []))\<rparr>"
    by (auto simp: search_def engine_query_points_def Let_def matched_def split: prod.splits)
  have ctx: "sr_contexts r = map (\<lambda>p. the (payload_or_empty p ''text''))
         (filter (\<lambda>p. truthy_get (payload_or_empty p) ''text'') matched)"
    using r by (simp add: search_loop_contexts)
  have src: "set (sr_sources r) = (\<lambda>p. the (payload_or_empty p ''source'')) `
         {p \<in> set matched. truthy_get (payload_or_empty p) ''source''}"
    using r by (simp add: list_of_set_def search_loop_sources)
  have dis: "distinct (sr_sources r)"
    using r by (simp add: list_of_set_def search_loop_distinct)
  have "length (sr_contexts r) \<le> length matched"
    unfolding ctx by simp
  also have "\<dots> \<le> nat k" by (simp add: matched_def)
  finally have len: "length (sr_contexts r) \<le> nat k" .
  have pt: "\<forall>t \<in> set (sr_contexts r). \<exists>p \<in> set matched. \<exists>m. ppayload p = Some m \<and> m ''text'' = Some t"
  proof
    fix t assume "t \<in> set (sr_contexts r)"
    then obtain p where "p \<in> set matched" "truthy_get (payload_or_empty p) ''text''"
      "t = the (payload_or_empty p ''text'')" unfolding ctx by auto
    then show "\<exists>p \<in> set matched. \<exists>m. ppayload p = Some m \<and> m ''text'' = Some t"
      using truthy_get_present by blast
  qed
  have ps: "\<forall>s \<in> set (sr_sources r). \<exists>p \<in> set matched. \<exists>m. ppayload p = Some m \<and> m ''source'' = Some s"
  proof
    fix s assume "s \<in> set (sr_sources r)"
    then obtain p where "p \<in> set matched" "truthy_get (payload_or_empty p) ''source''"
      "s = the (payload_or_empty p ''source'')" unfolding src by auto
    then show "\<exists>p \<in> set matched. \<exists>m. ppayload p = Some m \<and> m ''source'' = Some s"
      using truthy_get_present by blast
  qed
  from c ctx src dis len pt ps show ?thesis
    unfolding matched_def Let_def by blast
qed

theorem search_result_shape_witness:
  "search (\<lambda>c query. sample_points) length \<lparr>qs_url = ''u'', qs_collection = ''docs''\<rparr>
      zero_vector 2 world1 =
   (Inr \<lparr>sr_contexts = [''alpha info''], sr_sources = [''doc1'']\<rparr>,
    engine_call (QueryPoints ''docs'' zero_vector 2) world1) \<and>
   length (sr_contexts \<lparr>sr_contexts = [''alpha info''], sr_sources = [''doc1'']\<rparr>) \<le> nat 2 \<and>
   distinct (sr_sources \<lparr>sr_contexts = [''alpha info''], sr_sources = [''doc1'']\<rparr>)"
  using search_result_shape [OF search_sample] search_sample
  unfolding Let_def by blast

section \<open>The query workflow: empty contexts\<close>

lemma embed_texts_llm_log: "llm_log (snd (embed_texts create texts bs w)) = llm_log w"
proof -
  obtain R L where "\<forall>w. embed_texts create texts bs w = (R, w\<lparr>embed_log := embed_log w @ L\<rparr>)"
    using embed_texts_shape by blast
  then show ?thesis by simp
qed

lemma init_llm_log: "llm_log (snd (QdrantStorage_default w)) = llm_log w"
  by (simp add: QdrantStorage_default_def QdrantStorage_init_def QdrantStorage_init_among_def
      engine_get_collections_def engine_collection_exists_def engine_create_collection_def
      engine_call_def Let_def)

lemma search_llm_log: "llm_log (snd (search nearest ord self q k w)) = llm_log w"
  by (simp add: search_def engine_query_points_def engine_call_def Let_def
      split: option.splits prod.splits)

lemma search_step_llm_log: "llm_log (snd (search_step x q k w)) = llm_log w"
proof (cases "embed_texts (ext_embeddings x) [q] 100 w")
  case (Pair r w1)
  have l1: "llm_log w1 = llm_log w" using embed_texts_llm_log [of "ext_embeddings x" "[q]" 100 w] Pair by simp
  show ?thesis
  proof (cases r)
    case (Inl e)
    with Pair l1 show ?thesis by (simp add: search_step_def)
  next
    case (Inr vectors)
    show ?thesis
    proof (cases "QdrantStorage_default w1")
      case p2: (Pair r2 w2)
      have l2: "llm_log w2 = llm_log w" using init_llm_log [of w1] p2 l1 by simp
      show ?thesis
      proof (cases r2)
        case (Inl e)
        with Pair Inr p2 l2 show ?thesis by (simp add: search_step_def)
      next
        case i2: (Inr store)
        with Pair Inr p2 l2 show ?thesis by (simp add: search_step_def Let_def search_llm_log)
      qed
    qed
  qed
qed

lemma search_step_world0:
  "search_step ext0 ''q'' 5 world0 = (Inr \<lparr>sr_contexts = [], sr_sources = []\<rparr>, world1)"
proof -
  have b: "batches (nat 100) [''q''] = [[''q'']]"
    by (rule batches_single) simp_all
  have e: "embed_texts zero_provider [''q''] 100 world0 =
     (Inr [zero_vector], world0\<lparr>embed_log := [[''q'']]\<rparr>)"
    using embed_texts_ok [of "[''q'']" 100 zero_provider world0] b
    by (simp add: zero_provider_def Let_def zero_vector_def EMBED_DIM_def world0_def)
  show ?thesis
    using e
    by (simp add: search_step_def ext0_def QdrantStorage_default_def
        QdrantStorage_init_def QdrantStorage_init_among_def engine_get_collections_def
        engine_collection_exists_def engine_create_collection_def engine_call_def
        search_def engine_query_points_def list_of_set_def world0_def world1_def Let_def)
qed

text \<open>
  C3. A run of \<^verbatim>\<open>rag_query_pdf\<close> with a question, whose embed-and-search step returns a
  search result with no contexts, returns the answer \<open>FALLBACK_ANSWER\<close> with the empty list
  of sources and \<open>num_contexts = 0\<close>, in the world the search step left; the log of calls
  to the generative model is the one from before the run.
\<close>

theorem empty_context_fallback:
  assumes "ev_question ev = Some question" and "question \<noteq> []"
    and "search_step x question (case ev_top_k ev of None \<Rightarrow> 5 | Some k \<Rightarrow> k) w = (Inr sr, w1)"
    and "sr_contexts sr = []"
  shows "rag_query_pdf x ev w =
      (Inr \<lparr>qa_answer = FALLBACK_ANSWER, qa_sources = [], qa_num_contexts = 0\<rparr>, w1) \<and>
    llm_log w1 = llm_log w"
proof
  show "rag_query_pdf x ev w =
      (Inr \<lparr>qa_answer = FALLBACK_ANSWER, qa_sources = [], qa_num_contexts = 0\<rparr>, w1)"
    using assms by (simp add: rag_query_pdf_def Let_def)
  show "llm_log w1 = llm_log w"
    using search_step_llm_log [of x question "case ev_top_k ev of None \<Rightarrow> 5 | Some k \<Rightarrow> k" w] assms(3)
    by simp
qed

theorem empty_context_fallback_witness:
  "rag_query_pdf ext0 \<lparr>ev_question = Some ''q'', ev_top_k = None\<rparr> world0 =
      (Inr \<lparr>qa_answer = FALLBACK_ANSWER, qa_sources = [], qa_num_contexts = 0\<rparr>, world1) \<and>
    llm_log world1 = llm_log world0"
proof -
  have h1: "ev_question \<lparr>ev_question = Some ''q'', ev_top_k = None\<rparr> = Some ''q''" by simp
  have h2: "''q'' \<noteq> []" by simp
  have h3: "search_step ext0 ''q''
      (case ev_top_k \<lparr>ev_question = Some ''q'', ev_top_k = None\<rparr> of None \<Rightarrow> 5 | Some k \<Rightarrow> k) world0 =
      (Inr \<lparr>sr_contexts = [], sr_sources = []\<rparr>, world1)"
    using search_step_world0 by simp
  have h4: "sr_contexts \<lparr>sr_contexts = [], sr_sources = []\<rparr> = []" by simp
  show ?thesis by (rule empty_context_fallback [OF h1 h2 h3 h4])
qed

section \<open>The query workflow: validation of the question\<close>

text \<open>
  C10. A trigger event of \<^verbatim>\<open>rag_query_pdf\<close> whose question is absent or the empty string is
  rejected with \<^verbatim>\<open>ValueError("Missing question")\<close>, and the world is as before: the
  embed-and-search step has not run, so neither the embedding provider nor the engine has
  been called.
\<close>

theorem question_validation:
  "ev_question ev = None \<or> ev_question ev = Some [] \<Longrightarrow>
   rag_query_pdf x ev w = (Inl (ValueError ''Missing question''), w)"
  by (auto simp: rag_query_pdf_def)

theorem question_validation_witness:
  "rag_query_pdf ext0 \<lparr>ev_question = Some [], ev_top_k = None\<rparr> world0 =
     (Inl (ValueError ''Missing question''), world0) \<and>
   rag_query_pdf ext0 \<lparr>ev_question = None, ev_top_k = Some 3\<rparr> world0 =
     (Inl (ValueError ''Missing question''), world0)"
  using question_validation [of "\<lparr>ev_question = Some [], ev_top_k = None\<rparr>" ext0 world0]
    question_validation [of "\<lparr>ev_question = None, ev_top_k = Some 3\<rparr>" ext0 world0]
  by simp

section \<open>The ingestion workflow: running it twice\<close>

lemma write_points_map_add: "write_points ps m = m ++ map_of (rev ps)"
proof (induction ps arbitrary: m)
  case Nil
  then show ?case by simp
next
  case (Cons a ps)
  obtain k p where a: "a = (k, p)" by (cases a)
  have "write_points (a # ps) m = write_points ps (m(k \<mapsto> p))"
    using a by simp
  also have "\<dots> = (m(k \<mapsto> p)) ++ map_of (rev ps)"
    by (rule Cons.IH)
  also have "\<dots> = m ++ ([k \<mapsto> p] ++ map_of (rev ps))"
    by (rule ext) (simp add: map_add_def split: option.splits)
  also have "[k \<mapsto> p] ++ map_of (rev ps) = map_of (rev (a # ps))"
    using a by simp
  finally show ?case .
qed

lemma write_points_idem: "write_points ps (write_points ps m) = write_points ps m"
  unfolding write_points_map_add by (rule ext) (simp add: map_add_def split: option.splits)

lemma write_points_dom: "dom (write_points ps m) = dom m \<union> fst ` set ps"
  by (simp add: write_points_map_add dom_map_of_conv_image_fst Un_commute)

lemma ensure_docs_idem: "ensure_docs (ensure_docs cs) = ensure_docs cs"
  by (simp add: ensure_docs_def split: option.splits)

lemma ensure_docs_some: "ensure_docs cs ''docs'' \<noteq> None"
  by (simp add: ensure_docs_def split: option.splits)

lemma ensure_docs_present: "cs ''docs'' \<noteq> None \<Longrightarrow> ensure_docs cs = cs"
  by (auto simp: ensure_docs_def split: option.splits)

lemma write_docs_idem: "write_docs ps (write_docs ps cs) = write_docs ps cs"
  by (simp add: write_docs_def write_points_idem split: option.splits)

lemma write_docs_some: "cs ''docs'' \<noteq> None \<Longrightarrow> write_docs ps cs ''docs'' \<noteq> None"
  by (auto simp: write_docs_def split: option.splits)

lemma init_default_unreachable:
  "\<not> reachable w \<Longrightarrow> QdrantStorage_default w = (Inl EngineUnreachable, engine_call GetCollections w)"
  by (simp add: QdrantStorage_default_def QdrantStorage_init_def QdrantStorage_init_among_def
      engine_defs Let_def)

lemma init_default_reachable:
  "reachable w \<Longrightarrow> \<exists>w'. QdrantStorage_default w =
      (Inr \<lparr>qs_url = ''http://localhost:6333'', qs_collection = ''docs''\<rparr>, w') \<and>
     reachable w' \<and> collections w' = ensure_docs (collections w)"
  by (auto simp: QdrantStorage_default_def QdrantStorage_init_def QdrantStorage_init_among_def
      engine_defs Let_def ensure_docs_def split: option.splits)

lemma engine_upsert_docs:
  "reachable w \<Longrightarrow> collections w ''docs'' \<noteq> None \<Longrightarrow>
   \<exists>w'. engine_upsert ''docs'' ps w = (Inr (), w') \<and> reachable w' \<and>
     collections w' = write_docs ps (collections w)"
  by (auto simp: engine_upsert_def engine_call_def Let_def write_docs_def split: option.splits)

lemma upsert_fail:
  "build_points ids vectors payloads [0..<length ids] = Inl e \<Longrightarrow>
   upsert self ids vectors payloads w = (Inl e, w)"
  by (simp add: upsert_def)

lemma upsert_ok:
  "build_points ids vectors payloads [0..<length ids] = Inr ps \<Longrightarrow>
   upsert self ids vectors payloads w = engine_upsert (qs_collection self) ps w"
  by (simp add: upsert_def)

lemma store_points_down:
  "\<not> reachable w \<Longrightarrow>
   store_points ids vectors payloads n w = (Inl EngineUnreachable, engine_call GetCollections w)"
  by (simp add: store_points_def init_default_unreachable)

lemma store_points_fail:
  assumes "reachable w" and "build_points ids vectors payloads [0..<length ids] = Inl e"
  shows "fst (store_points ids vectors payloads n w) = Inl e \<and>
    reachable (snd (store_points ids vectors payloads n w)) \<and>
    collections (snd (store_points ids vectors payloads n w)) = ensure_docs (collections w)"
proof -
  from init_default_reachable [OF assms(1)] obtain w2 where
    w2: "QdrantStorage_default w =
           (Inr \<lparr>qs_url = ''http://localhost:6333'', qs_collection = ''docs''\<rparr>, w2)"
      "reachable w2" "collections w2 = ensure_docs (collections w)"
    by auto
  show ?thesis
    by (simp add: store_points_def w2 upsert_fail [OF assms(2)])
qed

lemma store_points_ok:
  assumes "reachable w" and "build_points ids vectors payloads [0..<length ids] = Inr ps"
  shows "fst (store_points ids vectors payloads n w) = Inr n \<and>
    reachable (snd (store_points ids vectors payloads n w)) \<and>
    collections (snd (store_points ids vectors payloads n w)) =
      write_docs ps (ensure_docs (collections w))"
proof -
  from init_default_reachable [OF assms(1)] obtain w2 where
    w2: "QdrantStorage_default w =
           (Inr \<lparr>qs_url = ''http://localhost:6333'', qs_collection = ''docs''\<rparr>, w2)"
      "reachable w2" "collections w2 = ensure_docs (collections w)"
    by auto
  have "collections w2 ''docs'' \<noteq> None" using w2(3) ensure_docs_some by simp
  from engine_upsert_docs [OF w2(2) this, of ps] obtain w3 where
    w3: "engine_upsert ''docs'' ps w2 = (Inr (), w3)" "reachable w3"
      "collections w3 = write_docs ps (collections w2)" by auto
  show ?thesis
    by (simp add: store_points_def w2 w3 upsert_ok [OF assms(2)])
qed

lemma write_ensure_idem:
  "write_docs ps (ensure_docs (write_docs ps (ensure_docs cs))) = write_docs ps (ensure_docs cs)"
proof -
  have "write_docs ps (ensure_docs cs) ''docs'' \<noteq> None"
    by (rule write_docs_some) (rule ensure_docs_some)
  then have "ensure_docs (write_docs ps (ensure_docs cs)) = write_docs ps (ensure_docs cs)"
    by (rule ensure_docs_present)
  then show ?thesis by (simp add: write_docs_idem)
qed

lemma store_points_effect:
  "\<exists>res G. (\<forall>cs. G (G cs) = G cs) \<and>
     (\<forall>w. reachable (snd (store_points ids vectors payloads n w)) = reachable w \<and>
          fst (store_points ids vectors payloads n w) = res (reachable w) \<and>
          collections (snd (store_points ids vectors payloads n w)) =
            (if reachable w then G (collections w) else collections w))"
proof (cases "build_points ids vectors payloads [0..<length ids]")
  case (Inl e)
  define res :: "bool \<Rightarrow> error + nat" where
    "res = (\<lambda>r. if r then Inl e else Inl EngineUnreachable)"
  have eff: "\<forall>w. reachable (snd (store_points ids vectors payloads n w)) = reachable w \<and>
          fst (store_points ids vectors payloads n w) = res (reachable w) \<and>
          collections (snd (store_points ids vectors payloads n w)) =
            (if reachable w then ensure_docs (collections w) else collections w)"
  proof
    fix w
    show "reachable (snd (store_points ids vectors payloads n w)) = reachable w \<and>
          fst (store_points ids vectors payloads n w) = res (reachable w) \<and>
          collections (snd (store_points ids vectors payloads n w)) =
            (if reachable w then ensure_docs (collections w) else collections w)"
    proof (cases "reachable w")
      case True
      with store_points_fail [OF True Inl, of n] show ?thesis by (simp add: res_def)
    next
      case False
      with store_points_down [OF False, of ids vectors payloads n] show ?thesis
        by (simp add: engine_call_def res_def)
    qed
  qed
  have idem: "\<forall>cs. ensure_docs (ensure_docs cs) = ensure_docs cs"
    by (simp add: ensure_docs_idem)
  from idem eff show ?thesis by blast
next
  case (Inr ps)
  define res :: "bool \<Rightarrow> error + nat" where
    "res = (\<lambda>r. if r then Inr n else Inl EngineUnreachable)"
  define G where "G = (\<lambda>cs. write_docs ps (ensure_docs cs))"
  have eff: "\<forall>w. reachable (snd (store_points ids vectors payloads n w)) = reachable w \<and>
          fst (store_points ids vectors payloads n w) = res (reachable w) \<and>
          collections (snd (store_points ids vectors payloads n w)) =
            (if reachable w then G (collections w) else collections w)"
  proof
    fix w
    show "reachable (snd (store_points ids vectors payloads n w)) = reachable w \<and>
          fst (store_points ids vectors payloads n w) = res (reachable w) \<and>
          collections (snd (store_points ids vectors payloads n w)) =
            (if reachable w then G (collections w) else collections w)"
    proof (cases "reachable w")
      case True
      with store_points_ok [OF True Inr, of n] show ?thesis by (simp add: res_def G_def)
    next
      case False
      with store_points_down [OF False, of ids vectors payloads n] show ?thesis
        by (simp add: engine_call_def res_def)
    qed
  qed
  have idem: "\<forall>cs. G (G cs) = G cs"
    by (simp add: G_def write_ensure_idem)
  from idem eff show ?thesis by blast
qed

lemma upsert_step_store_points:
  "upsert_step x data w =
     (case embed_texts (ext_embeddings x) (cr_chunks data) 100 w of
        (Inl e, w1) \<Rightarrow> (Inl e, w1)
      | (Inr vectors, w1) \<Rightarrow>
          store_points
            (map (\<lambda>i. derive_id (ext_uuid5 x) (cr_source_id data) i) [0..<length (cr_chunks data)])
            vectors
            (map (\<lambda>i. [''text'' \<mapsto> cr_chunks data ! i, ''source'' \<mapsto> cr_source_id data])
               [0..<length (cr_chunks data)])
            (length (cr_chunks data)) w1)"
  by (simp add: upsert_step_def store_points_def Let_def split: prod.splits sum.splits)

lemma upsert_step_effect:
  "\<exists>res G. (\<forall>cs. G (G cs) = G cs) \<and>
     (\<forall>w. reachable (snd (upsert_step x data w)) = reachable w \<and>
          fst (upsert_step x data w) = res (reachable w) \<and>
          collections (snd (upsert_step x data w)) =
            (if reachable w then G (collections w) else collections w))"
proof -
  obtain R L where rl:
    "\<forall>w. embed_texts (ext_embeddings x) (cr_chunks data) 100 w =
       (R, w\<lparr>embed_log := embed_log w @ L\<rparr>)"
    using embed_texts_shape by blast
  show ?thesis
  proof (cases R)
    case (Inl e)
    define res :: "bool \<Rightarrow> error + nat" where "res = (\<lambda>r. Inl e)"
    define G :: "(string \<rightharpoonup> collection) \<Rightarrow> (string \<rightharpoonup> collection)" where "G = (\<lambda>cs. cs)"
    have "\<forall>w. upsert_step x data w = (Inl e, w\<lparr>embed_log := embed_log w @ L\<rparr>)"
      using rl Inl by (simp add: upsert_step_store_points)
    then have eff: "\<forall>w. reachable (snd (upsert_step x data w)) = reachable w \<and>
          fst (upsert_step x data w) = res (reachable w) \<and>
          collections (snd (upsert_step x data w)) =
            (if reachable w then G (collections w) else collections w)"
      by (simp add: res_def G_def)
    have idem: "\<forall>cs. G (G cs) = G cs" by (simp add: G_def)
    from idem eff show ?thesis by blast
  next
    case (Inr vectors)
    define ids where
      "ids = map (\<lambda>i. derive_id (ext_uuid5 x) (cr_source_id data) i) [0..<length (cr_chunks data)]"
    define payloads where
      "payloads = map (\<lambda>i. [''text'' \<mapsto> cr_chunks data ! i, ''source'' \<mapsto> cr_source_id data])
         [0..<length (cr_chunks data)]"
    have step: "\<forall>w. upsert_step x data w =
        store_points ids vectors payloads (length (cr_chunks data))
          (w\<lparr>embed_log := embed_log w @ L\<rparr>)"
      using rl Inr unfolding ids_def payloads_def by (simp add: upsert_step_store_points)
    obtain res G where g: "\<forall>cs. G (G cs) = G cs"
      and e: "\<forall>w. reachable (snd (store_points ids vectors payloads (length (cr_chunks data)) w)) =
            reachable w \<and>
          fst (store_points ids vectors payloads (length (cr_chunks data)) w) = res (reachable w) \<and>
          collections (snd (store_points ids vectors payloads (length (cr_chunks data)) w)) =
            (if reachable w then G (collections w) else collections w)"
      using store_points_effect [of ids vectors payloads "length (cr_chunks data)"] by blast
    have "\<forall>w. reachable (snd (upsert_step x data w)) = reachable w \<and>
          fst (upsert_step x data w) = res (reachable w) \<and>
          collections (snd (upsert_step x data w)) =
            (if reachable w then G (collections w) else collections w)"
      using step e by simp
    with g show ?thesis by blast
  qed
qed

text \<open>
  C1. Running the ingestion workflow a second time on the same event, with the same
  collaborators, from the world the first run left: the engine's collections are the
  ones the first run left. So the set of stored point ids and their number are the same
  after two runs as after one, and the second run returns what the first returned. The
  ids of the points are \<open>derive_id\<close> of the source id and the offset, and the engine's
  upsert overwrites a point whose id is stored.
\<close>

theorem ingestion_idempotent:
  "collections (snd (rag_ingest_pdf x env ev (snd (rag_ingest_pdf x env ev w)))) =
     collections (snd (rag_ingest_pdf x env ev w)) \<and>
   stored_ids (snd (rag_ingest_pdf x env ev (snd (rag_ingest_pdf x env ev w)))) =
     stored_ids (snd (rag_ingest_pdf x env ev w)) \<and>
   card (stored_ids (snd (rag_ingest_pdf x env ev (snd (rag_ingest_pdf x env ev w))))) =
     card (stored_ids (snd (rag_ingest_pdf x env ev w))) \<and>
   fst (rag_ingest_pdf x env ev (snd (rag_ingest_pdf x env ev w))) =
     fst (rag_ingest_pdf x env ev w)"
proof -
  have main: "collections (snd (rag_ingest_pdf x env ev (snd (rag_ingest_pdf x env ev w)))) =
     collections (snd (rag_ingest_pdf x env ev w)) \<and>
     fst (rag_ingest_pdf x env ev (snd (rag_ingest_pdf x env ev w))) =
     fst (rag_ingest_pdf x env ev w)"
  proof (cases "load_step env ev")
    case (Inl e)
    then show ?thesis by (simp add: rag_ingest_pdf_def)
  next
    case (Inr data)
    obtain res G where g: "\<forall>cs. G (G cs) = G cs"
      and e: "\<forall>w. reachable (snd (upsert_step x data w)) = reachable w \<and>
          fst (upsert_step x data w) = res (reachable w) \<and>
          collections (snd (upsert_step x data w)) =
            (if reachable w then G (collections w) else collections w)"
      using upsert_step_effect [of x data] by blast
    have run: "rag_ingest_pdf x env ev w' = upsert_step x data w'" for w'
      using Inr by (simp add: rag_ingest_pdf_def)
    show ?thesis unfolding run using e g by simp
  qed
  then show ?thesis by (simp add: stored_ids_def)
qed

section \<open>The identity scheme\<close>

declare str_nat.simps [simp del]



lemma str_nat_small: "n < 10 \<Longrightarrow> str_nat n = [digit_char n]"
  by (subst str_nat.simps) simp







lemma hex_digit_inj: "a < 16 \<Longrightarrow> b < 16 \<Longrightarrow> hex_digit a = hex_digit b \<Longrightarrow> a = b"
proof -
  assume a: "a < 16" and b: "b < 16" and e: "hex_digit a = hex_digit b"
  have d: "distinct ''0123456789abcdef''" by simp
  have l: "length ''0123456789abcdef'' = 16" by simp
  from e have "''0123456789abcdef'' ! a = ''0123456789abcdef'' ! b" by (simp add: hex_digit_def)
  with d a b l show "a = b" by (simp only: nth_eq_iff_index_eq)
qed

lemma nibble_less: "nibble u i < 16"
proof -
  have "drop_bit (4 * (31 - i)) u AND 15 \<le> (15 :: uuid)" by (rule word_and_le1)
  then have "unat (drop_bit (4 * (31 - i)) u AND 15) \<le> unat (15 :: uuid)"
    by (simp only: word_le_nat_alt)
  then show ?thesis by (simp add: nibble_def)
qed

lemma length_hex32: "length (hex32 u) = 32"
  by (simp add: hex32_def)

lemma hex32_nth: "i < 32 \<Longrightarrow> hex32 u ! i = hex_digit (nibble u i)"
  unfolding hex32_def by (simp only: nth_map length_upt nth_upt) simp

lemma hex32_inj: "hex32 u = hex32 v \<Longrightarrow> u = v"
proof (rule bit_word_eqI)
  fix n assume e: "hex32 u = hex32 v" and n: "n < LENGTH(128)"
  define j where "j = n div 4"
  have j: "j < 32" using n by (simp add: j_def)
  have i: "31 - j < 32" by simp
  have "hex32 u ! (31 - j) = hex32 v ! (31 - j)" using e by simp
  then have "hex_digit (nibble u (31 - j)) = hex_digit (nibble v (31 - j))"
    by (simp only: hex32_nth [OF i])
  then have "nibble u (31 - j) = nibble v (31 - j)"
    by (intro hex_digit_inj nibble_less)
  moreover have "31 - (31 - j) = j" using j by simp
  ultimately have w: "drop_bit (4 * j) u AND 15 = drop_bit (4 * j) v AND 15"
    by (simp add: nibble_def word_unat_eq_iff)
  have m: "(15 :: uuid) = mask 4" by (simp add: mask_eq_exp_minus_1)
  have "bit (drop_bit (4 * j) u AND mask 4) (n mod 4) = bit (drop_bit (4 * j) v AND mask 4) (n mod 4)"
    using w unfolding m by simp
  moreover have "n mod 4 < 128" by (rule less_trans [of _ 4]) simp_all
  ultimately have "bit u (4 * j + n mod 4) = bit v (4 * j + n mod 4)"
    by (simp add: bit_and_iff bit_drop_bit_eq bit_mask_iff)
  moreover have "4 * j + n mod 4 = n" by (simp add: j_def)
  ultimately show "bit u n = bit v n" by simp
qed

lemma regroup:
  "take 8 h @ take 4 (drop 8 h) @ take 4 (drop 12 h) @ take 4 (drop 16 h) @ drop 20 h = h"
proof -
  have a: "take 8 h @ take 4 (drop 8 h) = take 12 h" using take_add [of 8 4 h] by simp
  have b: "take 12 h @ take 4 (drop 12 h) = take 16 h" using take_add [of 12 4 h] by simp
  have c: "take 16 h @ take 4 (drop 16 h) = take 20 h" using take_add [of 16 4 h] by simp
  have "take 8 h @ take 4 (drop 8 h) @ take 4 (drop 12 h) @ take 4 (drop 16 h) @ drop 20 h =
     (((take 8 h @ take 4 (drop 8 h)) @ take 4 (drop 12 h)) @ take 4 (drop 16 h)) @ drop 20 h"
    by simp
  also have "\<dots> = h" by (simp only: a b c append_take_drop_id)
  finally show ?thesis .
qed

lemma str_uuid_hex32:
  "take 8 (str_uuid u) @ take 4 (drop 9 (str_uuid u)) @ take 4 (drop 14 (str_uuid u)) @
     take 4 (drop 19 (str_uuid u)) @ drop 24 (str_uuid u) = hex32 u"
proof -
  define h where "h = hex32 u"
  define a where "a = take 8 h"
  define b where "b = take 4 (drop 8 h)"
  define c where "c = take 4 (drop 12 h)"
  define d where "d = take 4 (drop 16 h)"
  define e where "e = drop 20 h"
  have l: "length h = 32" by (simp add: h_def length_hex32)
  have la: "length a = 8" and lb: "length b = 4" and lc: "length c = 4" and ld: "length d = 4"
    using l by (simp_all add: a_def b_def c_def d_def)
  have s: "str_uuid u = a @ ''-'' @ b @ ''-'' @ c @ ''-'' @ d @ ''-'' @ e"
    by (simp add: str_uuid_def Let_def h_def a_def b_def c_def d_def e_def)
  have "take 8 (str_uuid u) @ take 4 (drop 9 (str_uuid u)) @ take 4 (drop 14 (str_uuid u)) @
     take 4 (drop 19 (str_uuid u)) @ drop 24 (str_uuid u) = a @ b @ c @ d @ e"
    unfolding s using la lb lc ld by simp
  also have "\<dots> = h"
    unfolding a_def b_def c_def d_def e_def by (rule regroup)
  finally show ?thesis by (simp add: h_def)
qed

lemma str_uuid_inj: "str_uuid u = str_uuid v \<Longrightarrow> u = v"
proof (rule hex32_inj)
  assume "str_uuid u = str_uuid v"
  then show "hex32 u = hex32 v"
    using str_uuid_hex32 [of u] str_uuid_hex32 [of v] by simp
qed







section \<open>The ingestion workflow: a run on two chunks\<close>

text \<open>
  The document of \<open>env0\<close> has the two chunks \<open>alpha info\<close> and \<open>beta info\<close>. From \<open>world0\<close>
  the workflow reports two chunks ingested and stores two points, under the two ids
  derived from \<open>doc1\<close> and the offsets 0 and 1; a second run reports the same and leaves
  two points.
\<close>

lemma load_step0:
  "load_step env0 ev0 = Inr \<lparr>cr_source_id = ''doc1'', cr_chunks = [''alpha info'', ''beta info'']\<rparr>"
  by (simp add: load_step_def load_and_chunk_pdf_def env0_def ev0_def lower_def strip_def
      is_space_def Let_def)

lemma embed0:
  "embed_texts zero_provider [''alpha info'', ''beta info''] 100 w =
     (Inr [zero_vector, zero_vector], w\<lparr>embed_log := embed_log w @ [[''alpha info'', ''beta info'']]\<rparr>)"
proof -
  have b: "batches (nat 100) [''alpha info'', ''beta info''] = [[''alpha info'', ''beta info'']]"
    by (rule batches_single) simp_all
  show ?thesis
    using embed_texts_ok [of "[''alpha info'', ''beta info'']" 100 zero_provider w] b
    by (simp add: zero_provider_def Let_def zero_vector_def EMBED_DIM_def)
qed

lemma ids0:
  "derive_id last_char_hash ''doc1'' 0 \<noteq> derive_id last_char_hash ''doc1'' 1"
proof
  assume "derive_id last_char_hash ''doc1'' 0 = derive_id last_char_hash ''doc1'' 1"
  then have "last_char_hash (chunk_name ''doc1'' 0) = last_char_hash (chunk_name ''doc1'' 1)"
    by (simp add: derive_id_def str_uuid_inj)
  then show False
    by (simp add: chunk_name_def str_nat_small digit_char_def last_char_hash_def)
qed

lemma run0:
  "fst (rag_ingest_pdf ext1 env0 ev0 world0) = Inr 2 \<and>
   stored_ids (snd (rag_ingest_pdf ext1 env0 ev0 world0)) =
     {derive_id last_char_hash ''doc1'' 0, derive_id last_char_hash ''doc1'' 1}"
proof -
  define ids where
    "ids = [derive_id last_char_hash ''doc1'' 0, derive_id last_char_hash ''doc1'' 1]"
  define payloads :: "payload list" where
    "payloads = [[''text'' \<mapsto> ''alpha info'', ''source'' \<mapsto> ''doc1''],
                 [''text'' \<mapsto> ''beta info'', ''source'' \<mapsto> ''doc1'']]"
  define w1 where "w1 = world0\<lparr>embed_log := embed_log world0 @ [[''alpha info'', ''beta info'']]\<rparr>"
  define ps where "ps = map (\<lambda>i. (ids ! i, \<lparr>pvector = [zero_vector, zero_vector] ! i,
     ppayload = Some (payloads ! i)\<rparr>)) [0..<length ids]"
  have run: "rag_ingest_pdf ext1 env0 ev0 world0 =
      store_points ids [zero_vector, zero_vector] payloads 2 w1"
    by (simp add: rag_ingest_pdf_def load_step0 upsert_step_store_points ext1_def ext0_def
        embed0 ids_def payloads_def w1_def numeral_2_eq_2)
  have r: "reachable w1" by (simp add: w1_def world0_def)
  have bp: "build_points ids [zero_vector, zero_vector] payloads [0..<length ids] = Inr ps"
    unfolding ps_def by (rule build_points_long) (simp add: ids_def payloads_def)
  note sp = store_points_ok [OF r bp, of 2]
  have c: "collections w1 = Map.empty" by (simp add: w1_def world0_def)
  have f: "fst ` set ps = {derive_id last_char_hash ''doc1'' 0, derive_id last_char_hash ''doc1'' 1}"
    by (simp add: ps_def ids_def upt_rec)
  have "stored_ids (snd (store_points ids [zero_vector, zero_vector] payloads 2 w1)) = fst ` set ps"
    using sp c by (simp add: stored_ids_def write_docs_def ensure_docs_def write_points_dom)
  with sp f run show ?thesis by simp
qed

theorem ingestion_idempotent_witness:
  "fst (rag_ingest_pdf ext1 env0 ev0 world0) = Inr 2 \<and>
   card (stored_ids (snd (rag_ingest_pdf ext1 env0 ev0 world0))) = 2 \<and>
   fst (rag_ingest_pdf ext1 env0 ev0 (snd (rag_ingest_pdf ext1 env0 ev0 world0))) = Inr 2 \<and>
   card (stored_ids (snd (rag_ingest_pdf ext1 env0 ev0 (snd (rag_ingest_pdf ext1 env0 ev0 world0))))) = 2"
proof -
  have "card (stored_ids (snd (rag_ingest_pdf ext1 env0 ev0 world0))) = 2"
    using run0 ids0 by simp
  with run0 ingestion_idempotent [of ext1 env0 ev0 world0] show ?thesis by simp
qed






section \<open>The ingestion workflow: a failed embedding\<close>

text \<open>
  What the dimension check of \<^verbatim>\<open>embed_texts\<close> does cover: with every batch answered and
  the count right, a first vector of another length than \<open>EMBED_DIM\<close> makes it fail with
  \<^verbatim>\<open>RuntimeError("Embedding dimension mismatch")\<close>. And whenever \<^verbatim>\<open>embed_texts\<close> fails inside
  \<^verbatim>\<open>upsert_step\<close>, the step fails with the same error, no call has reached the engine and
  its collections are as before.
\<close>

theorem dimension_guard_first_vector:
  "(texts \<noteq> [] \<and> 0 < bs \<and> (\<forall>b \<in> set (batches (nat bs) texts). \<exists>vs. create b = Inr vs) \<and>
    length (concat (map (\<lambda>b. projr (create b)) (batches (nat bs) texts))) = length texts \<and>
    length (hd (concat (map (\<lambda>b. projr (create b)) (batches (nat bs) texts)))) \<noteq> EMBED_DIM \<longrightarrow>
      fst (embed_texts create texts bs w) = Inl (RuntimeError ''Embedding dimension mismatch'')) \<and>
   (fst (embed_texts (ext_embeddings x) (cr_chunks data) 100 w') = Inl e \<longrightarrow>
      fst (upsert_step x data w') = Inl e \<and>
      engine_log (snd (upsert_step x data w')) = engine_log w' \<and>
      collections (snd (upsert_step x data w')) = collections w')"
proof (intro conjI impI)
  assume a: "texts \<noteq> [] \<and> 0 < bs \<and> (\<forall>b \<in> set (batches (nat bs) texts). \<exists>vs. create b = Inr vs) \<and>
    length (concat (map (\<lambda>b. projr (create b)) (batches (nat bs) texts))) = length texts \<and>
    length (hd (concat (map (\<lambda>b. projr (create b)) (batches (nat bs) texts)))) \<noteq> EMBED_DIM"
  then have "texts \<noteq> []" "0 < bs" "\<forall>b \<in> set (batches (nat bs) texts). \<exists>vs. create b = Inr vs"
    by simp_all
  from embed_texts_ok [OF this, of w] a
  show "fst (embed_texts create texts bs w) = Inl (RuntimeError ''Embedding dimension mismatch'')"
    by (simp add: Let_def)
next
  assume f: "fst (embed_texts (ext_embeddings x) (cr_chunks data) 100 w') = Inl e"
  obtain R L where rl:
    "\<forall>w. embed_texts (ext_embeddings x) (cr_chunks data) 100 w =
       (R, w\<lparr>embed_log := embed_log w @ L\<rparr>)"
    using embed_texts_shape by blast
  with f have "R = Inl e" by simp
  with rl have u: "upsert_step x data w' = (Inl e, w'\<lparr>embed_log := embed_log w' @ L\<rparr>)"
    by (simp add: upsert_step_store_points)
  show "fst (upsert_step x data w') = Inl e" using u by simp
  show "engine_log (snd (upsert_step x data w')) = engine_log w'" using u by simp
  show "collections (snd (upsert_step x data w')) = collections w'" using u by simp
qed

theorem dimension_guard_first_vector_witness:
  "fst (embed_texts (\<lambda>b. Inr (map (\<lambda>t. [1]) b)) [''a''] 100 world0) =
     Inl (RuntimeError ''Embedding dimension mismatch'') \<and>
   fst (upsert_step (ext0\<lparr>ext_embeddings := (\<lambda>b. Inr (map (\<lambda>t. [1]) b))\<rparr>)
          \<lparr>cr_source_id = ''s'', cr_chunks = [''a'']\<rparr> world0) =
     Inl (RuntimeError ''Embedding dimension mismatch'') \<and>
   engine_log (snd (upsert_step (ext0\<lparr>ext_embeddings := (\<lambda>b. Inr (map (\<lambda>t. [1]) b))\<rparr>)
          \<lparr>cr_source_id = ''s'', cr_chunks = [''a'']\<rparr> world0)) = engine_log world0"
proof -
  let ?p = "\<lambda>b :: string list. Inr (map (\<lambda>t. [1 :: real]) b) :: error + vector list"
  let ?x = "ext0\<lparr>ext_embeddings := ?p\<rparr>"
  let ?d = "\<lparr>cr_source_id = ''s'', cr_chunks = [''a'']\<rparr>"
  have b: "batches (nat 100) [''a''] = [[''a'']]"
    by (rule batches_single) simp_all
  note t = dimension_guard_first_vector [of "[''a'']" 100 ?p world0 ?x ?d world0
      "RuntimeError ''Embedding dimension mismatch''"]
  have 1: "fst (embed_texts ?p [''a''] 100 world0) =
     Inl (RuntimeError ''Embedding dimension mismatch'')"
    using t b by (simp add: EMBED_DIM_def)
  then have "fst (embed_texts (ext_embeddings ?x) (cr_chunks ?d) 100 world0) =
     Inl (RuntimeError ''Embedding dimension mismatch'')" by simp
  with t have "fst (upsert_step ?x ?d world0) = Inl (RuntimeError ''Embedding dimension mismatch'') \<and>
      engine_log (snd (upsert_step ?x ?d world0)) = engine_log world0"
    by blast
  with 1 show ?thesis by simp
qed

end
